theory Spec2Isabelle
  imports Main "HOL-Library.Word" "HOL-Library.Multiset"
begin

unbundle bit_operations_syntax

section \<open>The cell buffer document of parse.go\<close>

text \<open>
  A shallow embedding of \<^verbatim>\<open>src/parse.go\<close>: the cell buffer (\<^verbatim>\<open>cellbuf\<close>), its
  word wrapping, and the parser that walks a stream of HTML tokens. (The repository
  also holds an earlier revision of the file, without tables; the embedding follows
  parse.go.)

  Go's \<^verbatim>\<open>int\<close> is modelled by \<open>int\<close>, and the cell index \<^verbatim>\<open>y*c.width+x\<close> of
  \<^verbatim>\<open>setCell\<close>, the one product of the program, wraps around as the 64-bit type does.
  The increments of the row and the column by one are not wrapped; the properties of
  the word wrapping are stated for strings in the range of the buffer (\<open>inRange\<close>), where
  no increment overflows. A run-time panic of the Go program is a value \<open>Inl\<close> of the
  result type.
\<close>

subsection \<open>Run-time panics and errors\<close>

datatype panic =
    IndexOutOfRange int         \<comment> \<open>\<^verbatim>\<open>xs[i]\<close> with \<open>i\<close> outside \<open>0..<len(xs)\<close>\<close>
  | SliceBoundsOutOfRange int   \<comment> \<open>\<^verbatim>\<open>xs[:i]\<close> with \<open>i\<close> outside \<open>0..cap(xs)\<close>\<close>
  | NegativeRepeatCount         \<comment> \<open>\<^verbatim>\<open>strings.Repeat\<close> with a negative count\<close>
  | DivideByZero                \<comment> \<open>integer division by zero\<close>

text \<open>Values of Go's \<^verbatim>\<open>error\<close> other than \<^verbatim>\<open>nil\<close>; \<^verbatim>\<open>nil\<close> is \<open>None\<close> of \<open>error option\<close>.\<close>

datatype error = EOF | OtherError string

subsection \<open>termbox attributes and cells\<close>

text \<open>
  \<^verbatim>\<open>termbox.Attribute\<close> is an unsigned integer, here of 16 bits; no property below
  depends on the width beyond bit 9. The constants are those of the termbox-go package:
  the colours count up from \<^verbatim>\<open>ColorDefault = 0\<close> (black 1, red 2, green 3, yellow 4,
  blue 5, magenta 6, cyan 7), and \<^verbatim>\<open>AttrBold = 1 << 9\<close>.
\<close>

type_synonym Attribute = "16 word"
type_synonym rune = nat

definition ColorDefault :: Attribute where "ColorDefault = 0"
definition ColorRed :: Attribute where "ColorRed = 2"
definition ColorYellow :: Attribute where "ColorYellow = 4"
definition ColorBlue :: Attribute where "ColorBlue = 5"
definition ColorMagenta :: Attribute where "ColorMagenta = 6"
definition ColorCyan :: Attribute where "ColorCyan = 7"
definition AttrBold :: Attribute where "AttrBold = 512"

record Cell =
  Ch :: rune
  Fg :: Attribute
  Bg :: Attribute

text \<open>The zero value of \<^verbatim>\<open>termbox.Cell\<close>, with which \<^verbatim>\<open>make\<close> fills a new slice.\<close>

definition zeroCell :: Cell where
  "zeroCell = \<lparr>Ch = 0, Fg = 0, Bg = 0\<rparr>"

record cellbuf =
  cells :: "Cell list"
  width :: int
  lmargin :: int
  col :: int
  row :: int
  fg :: Attribute
  bg :: Attribute

subsection \<open>setCell\<close>

text \<open>
  The loop of \<^verbatim>\<open>setCell\<close>: while the index \<open>i\<close> is not below the length, append 1024
  zero cells. The loop is only entered with \<open>i\<close> compared against a length, so a negative
  \<open>i\<close> leaves the slice as it is.
\<close>

function grow :: "Cell list \<Rightarrow> int \<Rightarrow> Cell list" where
  "grow cs i = (if i \<ge> int (length cs) then grow (cs @ replicate 1024 zeroCell) i else cs)"
  by pat_completeness auto
termination
  by (relation "measure (\<lambda>(cs, i). nat (i + 1 - int (length cs)))") auto

declare grow.simps [simp del]

text \<open>
  The indexed store \<^verbatim>\<open>xs[i] = v\<close>: Go panics when \<open>i\<close> is negative or not below the
  length.
\<close>

definition store :: "Cell list \<Rightarrow> int \<Rightarrow> Cell \<Rightarrow> panic + Cell list" where
  "store cs i v =
     (if 0 \<le> i \<and> i < int (length cs) then Inr (cs[nat i := v]) else Inl (IndexOutOfRange i))"

text \<open>
  A value of Go's 64-bit \<^verbatim>\<open>int\<close>: a sum or a product that leaves the range from
  \<open>- 2 ^ 63\<close> to \<open>2 ^ 63 - 1\<close> wraps around.
\<close>

definition wrap64 :: "int \<Rightarrow> int" where
  "wrap64 i = (i + 2 ^ 63) mod 2 ^ 64 - 2 ^ 63"

definition setCell :: "cellbuf \<Rightarrow> int \<Rightarrow> int \<Rightarrow> rune \<Rightarrow> Attribute \<Rightarrow> Attribute \<Rightarrow> panic + cellbuf" where
  "setCell c x y ch f b =
     (let c1 = c\<lparr>cells := grow (cells c) (wrap64 (y * width c + x))\<rparr> in
      case store (cells c1) (wrap64 (y * width c1 + x)) \<lparr>Ch = ch, Fg = f, Bg = b\<rparr> of
        Inl e \<Rightarrow> Inl e
      | Inr cs \<Rightarrow> Inr (c1\<lparr>cells := cs\<rparr>))"

subsection \<open>style\<close>

text \<open>
  The atoms of \<^verbatim>\<open>golang.org/x/net/html/atom\<close> that parse.go names; every other atom
  value (0 for an unknown tag) is \<open>atom_Other\<close>.
\<close>

datatype atom =
    atom_B | atom_Strong | atom_Em | atom_I | atom_Title
  | atom_H1 | atom_H2 | atom_H3 | atom_H4 | atom_H5 | atom_H6
  | atom_Style | atom_Img | atom_Alt | atom_Src | atom_Br | atom_P | atom_Hr
  | atom_Table | atom_Tr | atom_Td
  | atom_Other nat

text \<open>The body of the \<^verbatim>\<open>switch\<close> in \<^verbatim>\<open>style\<close>: what one tag ORs into \<^verbatim>\<open>fg\<close>.\<close>

fun styleTag :: "Attribute \<Rightarrow> atom \<Rightarrow> Attribute" where
  "styleTag f atom_B = f OR AttrBold"
| "styleTag f atom_Strong = f OR AttrBold"
| "styleTag f atom_Em = f OR AttrBold"
| "styleTag f atom_I = f OR ColorYellow"
| "styleTag f atom_Title = f OR ColorRed"
| "styleTag f atom_H1 = f OR ColorMagenta"
| "styleTag f atom_H2 = f OR ColorBlue"
| "styleTag f atom_H3 = f OR ColorCyan"
| "styleTag f atom_H4 = f OR ColorCyan"
| "styleTag f atom_H5 = f OR ColorCyan"
| "styleTag f atom_H6 = f OR ColorCyan"
| "styleTag f _ = f"

fun styleLoop :: "Attribute \<Rightarrow> atom list \<Rightarrow> Attribute" where
  "styleLoop f [] = f"
| "styleLoop f (tag # tags) = styleLoop (styleTag f tag) tags"

definition style :: "cellbuf \<Rightarrow> atom list \<Rightarrow> cellbuf" where
  "style c tags = c\<lparr>fg := styleLoop ColorDefault tags\<rparr>"


section \<open>Strings, runes and the word scanner\<close>

text \<open>
  A Go string is a sequence of bytes: here a \<open>string\<close>, whose characters are bytes.
  \<^verbatim>\<open>utf8.DecodeRune\<close> reads the first UTF-8 sequence of a byte slice and returns the
  rune with the number of bytes it takes; bytes that do not start a well-formed sequence
  are read as \<^verbatim>\<open>utf8.RuneError\<close> of width 1. Converting a string to \<^verbatim>\<open>[]rune\<close> and
  ranging over a string decode in the same way.
\<close>

definition RuneError :: rune where "RuneError = 65533"

fun DecodeRune :: "string \<Rightarrow> rune \<times> nat" where
  "DecodeRune [] = (RuneError, 0)"
| "DecodeRune (c0 # p) =
    (let p0 = (of_char c0 :: nat) in
     if p0 < 128 then (p0, 1)
     else if p0 < 194 \<or> 244 < p0 then (RuneError, 1)
     else
       let sz = (if p0 < 224 then 2 else if p0 < 240 then 3 else 4 :: nat);
           lo = (if p0 = 224 then 160 else if p0 = 240 then 144 else 128 :: nat);
           hi = (if p0 = 237 then 159 else if p0 = 244 then 143 else 191 :: nat)
       in
       if length p + 1 < sz then (RuneError, 1)
       else
         let b1 = (of_char (p ! 0) :: nat) in
         if b1 < lo \<or> hi < b1 then (RuneError, 1)
         else if sz \<le> 2 then ((p0 mod 32) * 64 + b1 mod 64, 2)
         else
           let b2 = (of_char (p ! 1) :: nat) in
           if b2 < 128 \<or> 191 < b2 then (RuneError, 1)
           else if sz \<le> 3 then ((p0 mod 16) * 4096 + (b1 mod 64) * 64 + b2 mod 64, 3)
           else
             let b3 = (of_char (p ! 2) :: nat) in
             if b3 < 128 \<or> 191 < b3 then (RuneError, 1)
             else ((p0 mod 8) * 262144 + (b1 mod 64) * 4096 + (b2 mod 64) * 64 + b3 mod 64, 4))"

lemma DecodeRune_width: "s \<noteq> [] \<Longrightarrow> 1 \<le> snd (DecodeRune s) \<and> snd (DecodeRune s) \<le> 4"
  by (cases s) (simp_all add: Let_def)

text \<open>\<^verbatim>\<open>[]rune(s)\<close>, and the runes that \<^verbatim>\<open>for _, r := range s\<close> visits.\<close>

function runes :: "string \<Rightarrow> rune list" where
  "runes s = (if s = [] then [] else case DecodeRune s of (r, w) \<Rightarrow> r # runes (drop w s))"
  by pat_completeness auto
termination
  apply (relation "measure length")
   apply simp
  subgoal for s x y
    using DecodeRune_width [of s] by (cases "DecodeRune s") auto
  done

subsection \<open>scanWords\<close>

text \<open>The first loop of \<^verbatim>\<open>scanWords\<close>: skip leading spaces; the result is \<^verbatim>\<open>start\<close>.\<close>

function skipSpaces :: "string \<Rightarrow> nat \<Rightarrow> nat" where
  "skipSpaces data start =
     (if start < length data then
        (case DecodeRune (drop start data) of
           (r, w) \<Rightarrow> if r \<noteq> 32 then start else skipSpaces data (start + w))
      else start)"
  by pat_completeness auto
termination
  apply (relation "measure (\<lambda>(data, start). length data - start)")
   apply simp
  subgoal for data start x y
    using DecodeRune_width [of "drop start data"] by (cases "DecodeRune (drop start data)") auto
  done

text \<open>
  The second loop: scan from \<open>i\<close> until a space; \<open>Some (i, w)\<close> is the position of the
  space and its width, \<open>None\<close> is the loop running to the end of the data.
\<close>

function findSpace :: "string \<Rightarrow> nat \<Rightarrow> (nat \<times> nat) option" where
  "findSpace data i =
     (if i < length data then
        (case DecodeRune (drop i data) of
           (r, w) \<Rightarrow> if r = 32 then Some (i, w) else findSpace data (i + w))
      else None)"
  by pat_completeness auto
termination
  apply (relation "measure (\<lambda>(data, i). length data - i)")
   apply simp
  subgoal for data i x y
    using DecodeRune_width [of "drop i data"] by (cases "DecodeRune (drop i data)") auto
  done

text \<open>
  \<^verbatim>\<open>scanWords\<close> returns \<^verbatim>\<open>(advance, token, err)\<close>; \<^verbatim>\<open>err\<close> is always \<^verbatim>\<open>nil\<close> and is left
  out, a \<^verbatim>\<open>nil\<close> token is \<open>None\<close>.
\<close>

definition scanWords :: "string \<Rightarrow> bool \<Rightarrow> nat \<times> string option" where
  "scanWords data atEOF =
     (let start = skipSpaces data 0 in
      case findSpace data start of
        Some (i, w) \<Rightarrow> (i + w, Some (take (i - start) (drop start data)))
      | None \<Rightarrow>
          if atEOF \<and> length data > start then (length data, Some (drop start data))
          else (start, None))"

lemma findSpace_Some:
  "findSpace data i = Some (j, w) \<Longrightarrow> j < length data \<and> 1 \<le> w"
proof (induction data i rule: findSpace.induct)
  case (1 data i)
  show ?case
  proof (cases "i < length data")
    case True
    obtain r w' where d: "DecodeRune (drop i data) = (r, w')"
      by (cases "DecodeRune (drop i data)")
    from True have "drop i data \<noteq> []" by simp
    from DecodeRune_width [OF this] d have w': "1 \<le> w'" by simp
    show ?thesis
    proof (cases "r = 32")
      case True
      with \<open>i < length data\<close> d "1.prems" w' show ?thesis by simp
    next
      case False
      with \<open>i < length data\<close> d "1.prems" "1.IH" [OF \<open>i < length data\<close> d [symmetric]] show ?thesis
        by simp
    qed
  next
    case False
    with "1.prems" show ?thesis by simp
  qed
qed

lemma scanWords_advance:
  assumes "scanWords data atEOF = (advance, Some token)"
  shows "0 < advance \<and> data \<noteq> []"
proof (cases "findSpace data (skipSpaces data 0)")
  case None
  with assms show ?thesis
    by (auto simp: scanWords_def Let_def split: if_splits)
next
  case (Some a)
  obtain j w where a: "a = (j, w)" by (cases a)
  from findSpace_Some [of data "skipSpaces data 0" j w] Some a
  have "j < length data" "1 \<le> w" by simp_all
  with assms Some a show ?thesis
    by (auto simp: scanWords_def Let_def)
qed

declare skipSpaces.simps [simp del] findSpace.simps [simp del] runes.simps [simp del]

subsection \<open>The scanner\<close>

text \<open>
  \<^verbatim>\<open>bufio.Scanner\<close> over \<^verbatim>\<open>strings.NewReader(str)\<close>, with \<^verbatim>\<open>scanWords\<close> as its split
  function. \<open>Scan data\<close> is the list of tokens for which \<^verbatim>\<open>scanner.Scan()\<close> returns
  \<^verbatim>\<open>true\<close>, in order. The scanner hands the split function the unread data, advances by
  what it returns, and reads on when no token is returned; when the reader is exhausted
  it calls the split function with \<^verbatim>\<open>atEOF\<close> set. A token that \<^verbatim>\<open>scanWords\<close> returns
  before the end of the data is the same with and without \<^verbatim>\<open>atEOF\<close>, so the model
  calls it on the whole unread data with \<^verbatim>\<open>atEOF\<close> set.

  The scanner's buffer holds at most \<^verbatim>\<open>bufio.MaxScanTokenSize\<close> bytes: a word that
  fills it ends the scan with \<^verbatim>\<open>bufio.ErrTooLong\<close>, and \<^verbatim>\<open>Scan()\<close> returns \<^verbatim>\<open>false\<close> from
  then on. \<^verbatim>\<open>appendText\<close> does not look at \<^verbatim>\<open>scanner.Err()\<close>.
\<close>

definition MaxScanTokenSize :: nat where "MaxScanTokenSize = 64 * 1024"

function Scan :: "string \<Rightarrow> string list" where
  "Scan data =
     (case scanWords data True of
        (advance, None) \<Rightarrow> []
      | (advance, Some token) \<Rightarrow>
          if MaxScanTokenSize \<le> length token then []
          else token # Scan (drop advance data))"
  by pat_completeness auto
termination
  apply (relation "measure length")
   apply simp
  subgoal for data advance token' token
    using scanWords_advance [of data True advance token] by simp
  done

declare Scan.simps [simp del]

subsection \<open>appendText and appendRaw of the cell buffer\<close>

text \<open>
  The loop over the runes of a word, which \<^verbatim>\<open>appendText\<close> and \<^verbatim>\<open>appendRaw\<close> share:
  a newline (rune 10) moves to the margin of the next row, any other rune is set at the
  cursor and the column advances.
\<close>

fun putRunes :: "cellbuf \<Rightarrow> rune list \<Rightarrow> panic + cellbuf" where
  "putRunes c [] = Inr c"
| "putRunes c (r # rs) =
     (if r = 10 then putRunes (c\<lparr>row := row c + 1, col := lmargin c\<rparr>) rs
      else case setCell c (col c) (row c) r (fg c) (bg c) of
             Inl e \<Rightarrow> Inl e
           | Inr c' \<Rightarrow> putRunes (c'\<lparr>col := col c' + 1\<rparr>) rs)"

text \<open>\<^verbatim>\<open>if c.col < c.lmargin { c.col = c.lmargin }\<close>\<close>

definition snapToMargin :: "cellbuf \<Rightarrow> cellbuf" where
  "snapToMargin c = (if col c < lmargin c then c\<lparr>col := lmargin c\<rparr> else c)"

text \<open>The body of \<^verbatim>\<open>for scanner.Scan() { ... }\<close> for one token.\<close>

definition appendWord :: "cellbuf \<Rightarrow> string \<Rightarrow> panic + cellbuf" where
  "appendWord c token =
     (let word = runes token;
          c1 = (if int (length word) > width c - col c
                then c\<lparr>row := row c + 1, col := lmargin c\<rparr> else c)
      in case putRunes c1 word of
           Inl e \<Rightarrow> Inl e
         | Inr c2 \<Rightarrow> Inr (if col c2 \<noteq> lmargin c2 then c2\<lparr>col := col c2 + 1\<rparr> else c2))"

fun appendWords :: "cellbuf \<Rightarrow> string list \<Rightarrow> panic + cellbuf" where
  "appendWords c [] = Inr c"
| "appendWords c (token # rest) =
     (case appendWord c token of Inl e \<Rightarrow> Inl e | Inr c' \<Rightarrow> appendWords c' rest)"

definition appendText :: "cellbuf \<Rightarrow> string \<Rightarrow> panic + cellbuf" where
  "appendText c str = appendWords (snapToMargin c) (Scan str)"

definition appendRaw :: "cellbuf \<Rightarrow> string \<Rightarrow> panic + cellbuf" where
  "appendRaw c str = putRunes (snapToMargin c) (runes str)"


section \<open>The parser\<close>

subsection \<open>Library functions on strings\<close>

text \<open>\<^verbatim>\<open>unicode.IsSpace\<close>: the runes with the Unicode property White Space.\<close>

definition isSpace :: "rune \<Rightarrow> bool" where
  "isSpace r \<longleftrightarrow>
     (9 \<le> r \<and> r \<le> 13) \<or> r = 32 \<or> r = 133 \<or> r = 160 \<or> r = 5760 \<or>
     (8192 \<le> r \<and> r \<le> 8202) \<or> r = 8232 \<or> r = 8233 \<or> r = 8239 \<or> r = 8287 \<or> r = 12288"

text \<open>The UTF-8 sequences of a string, each with the rune it decodes to.\<close>

function sequences :: "string \<Rightarrow> (rune \<times> string) list" where
  "sequences s =
     (if s = [] then [] else case DecodeRune s of (r, w) \<Rightarrow> (r, take w s) # sequences (drop w s))"
  by pat_completeness auto
termination
  apply (relation "measure length")
   apply simp
  subgoal for s x y
    using DecodeRune_width [of s] by (cases "DecodeRune s") auto
  done

declare sequences.simps [simp del]

text \<open>
  \<^verbatim>\<open>strings.TrimSpace\<close>: the string without its leading and trailing white space, as
  defined by Unicode.
\<close>

definition TrimSpace :: "string \<Rightarrow> string" where
  "TrimSpace s =
     concat (map snd (rev (dropWhile (\<lambda>(r, b). isSpace r)
       (rev (dropWhile (\<lambda>(r, b). isSpace r) (sequences s))))))"

text \<open>
  \<^verbatim>\<open>atom.Lookup\<close> on the names of the atoms above. A name outside this table is mapped
  to \<open>atom_Other 0\<close>; the parser compares the result with \<^verbatim>\<open>atom.Alt\<close> and \<^verbatim>\<open>atom.Src\<close>
  only.
\<close>

definition Lookup :: "string \<Rightarrow> atom" where
  "Lookup name =
     (case map_of
        [(''b'', atom_B), (''strong'', atom_Strong), (''em'', atom_Em), (''i'', atom_I),
         (''title'', atom_Title), (''h1'', atom_H1), (''h2'', atom_H2), (''h3'', atom_H3),
         (''h4'', atom_H4), (''h5'', atom_H5), (''h6'', atom_H6), (''style'', atom_Style),
         (''img'', atom_Img), (''alt'', atom_Alt), (''src'', atom_Src), (''br'', atom_Br),
         (''p'', atom_P), (''hr'', atom_Hr), (''table'', atom_Table), (''tr'', atom_Tr),
         (''td'', atom_Td)] name of
        Some a \<Rightarrow> a
      | None \<Rightarrow> atom_Other 0)"

subsection \<open>Tokens, resources and the external packages\<close>

text \<open>
  The tokens of \<^verbatim>\<open>golang.org/x/net/html\<close>. The tokenizer is outside this program: a
  run of it is the list of the tokens it returns before its first \<^verbatim>\<open>html.ErrorToken\<close>,
  and the error \<^verbatim>\<open>tokenizer.Err()\<close> it reports with that token (\<^verbatim>\<open>io.EOF\<close> at the end
  of the input). The error token is therefore not a token type of the list.
\<close>

datatype TokenType =
  TextToken | StartTagToken | EndTagToken | SelfClosingTagToken | CommentToken | DoctypeToken

record Attr =
  Key :: string
  Val :: string

record Token =
  Type :: TokenType
  DataAtom :: atom
  Data :: string
  Attr :: "Attr list"

text \<open>
  An \<^verbatim>\<open>epub.Item\<close>: its \<^verbatim>\<open>HREF\<close>, and what \<^verbatim>\<open>item.Open()\<close> returns, the bytes of the
  resource or an error.
\<close>

record Item =
  HREF :: string
  Open :: "error + string"

text \<open>
  A decoded \<^verbatim>\<open>image.Image\<close>: the corner \<^verbatim>\<open>Bounds().Max\<close>, and for each point the
  luminance \<^verbatim>\<open>color.GrayModel.Convert(img.At(x, y)).(color.Gray).Y\<close>, an unsigned byte.
\<close>

record image_Image =
  MaxX :: int
  MaxY :: int
  GrayAt :: "int \<Rightarrow> int \<Rightarrow> 8 word"

text \<open>
  The packages that parse.go calls and that are not part of it are parameters of the
  model: \<^verbatim>\<open>image.Decode\<close>, \<^verbatim>\<open>resize.Resize\<close> with the Lanczos filter (called with the
  width and the height as \<^verbatim>\<open>uint\<close>), and the table writer, from the rows it is given
  and its two settings, border and row line, to the text it renders.
\<close>

record externals =
  Decode :: "string \<Rightarrow> error + image_Image"
  Resize :: "nat \<Rightarrow> nat \<Rightarrow> image_Image \<Rightarrow> image_Image"
  TableRender :: "string list list \<Rightarrow> bool \<Rightarrow> bool \<Rightarrow> string"

subsection \<open>imageToText\<close>

definition charGradient :: "rune list" where
  "charGradient = runes ''MND8OZ$7I?+=~:,..''"

text \<open>Go's integer division truncates towards zero.\<close>

definition quo :: "int \<Rightarrow> int \<Rightarrow> int" where
  "quo a b = sgn a * sgn b * (\<bar>a\<bar> div \<bar>b\<bar>)"

text \<open>The conversion \<^verbatim>\<open>uint(h)\<close> of a 64-bit \<^verbatim>\<open>int\<close>.\<close>

definition uint64 :: "int \<Rightarrow> nat" where
  "uint64 h = nat (h mod 2 ^ 64)"

text \<open>
  The runes written for the row \<open>y\<close> of the resized image: one of the gradient for each
  \<open>x\<close> below \<open>w\<close>, then a newline. The buffer holds their UTF-8 encoding, and all of
  them are ASCII: one byte each.
\<close>

definition glyphRow :: "image_Image \<Rightarrow> int \<Rightarrow> int \<Rightarrow> string" where
  "glyphRow img w y =
     map (\<lambda>x. char_of (charGradient !
                 nat (quo ((int (length charGradient) - 1) * int (unat (GrayAt img (int x) y))) 255)))
         [0 ..< nat w]
     @ [CHR 0x0A]"

definition imageToText :: "externals \<Rightarrow> Item \<Rightarrow> panic + string" where
  "imageToText X item =
     (case Open item of
        Inl err \<Rightarrow> Inr []
      | Inr r \<Rightarrow>
          (case Decode X r of
             Inl err \<Rightarrow> Inr []
           | Inr img \<Rightarrow>
               let w = 80 in
               if MaxX img * 2 = 0 then Inl DivideByZero
               else
                 let h = quo (MaxY img * w) (MaxX img * 2);
                     img' = Resize X (uint64 w) (uint64 h) img
                 in Inr (concat (map (\<lambda>y. glyphRow img' w (int y)) [0 ..< nat h]))))"

subsection \<open>The parser state\<close>

record parser =
  tagStack :: "atom list"
  tableStack :: "string list list list"
  doc :: cellbuf
  items :: "Item list"

text \<open>
  \<^verbatim>\<open>getTableCell\<close> returns a pointer to a string of the table stack or \<^verbatim>\<open>nil\<close>: here the
  three indices of that string, or \<open>None\<close>.
\<close>

definition getTableCell :: "parser \<Rightarrow> (nat \<times> nat \<times> nat) option" where
  "getTableCell p =
     (if length (tableStack p) > 0 then
        let tableI = length (tableStack p) - 1 in
        if length (tableStack p ! tableI) > 0 then
          let rowI = length (tableStack p ! tableI) - 1 in
          if length (tableStack p ! tableI ! rowI) > 0 then
            let colI = length (tableStack p ! tableI ! rowI) - 1 in
            Some (tableI, rowI, colI)
          else None
        else None
      else None)"

text \<open>\<^verbatim>\<open>(p *parser) appendText(str, raw)\<close>\<close>

definition parser_appendText :: "parser \<Rightarrow> string \<Rightarrow> bool \<Rightarrow> panic + parser" where
  "parser_appendText p str raw =
     (case getTableCell p of
        Some (tableI, rowI, colI) \<Rightarrow>
          let table = tableStack p ! tableI; r = table ! rowI; cell = r ! colI in
          Inr (p\<lparr>tableStack :=
                 (tableStack p)[tableI := table[rowI := r[colI := cell @ TrimSpace str]]]\<rparr>)
      | None \<Rightarrow>
          if raw then
            (case appendRaw (doc p) str of Inl e \<Rightarrow> Inl e | Inr d \<Rightarrow> Inr (p\<lparr>doc := d\<rparr>))
          else
            (case appendText (doc p) str of Inl e \<Rightarrow> Inl e | Inr d \<Rightarrow> Inr (p\<lparr>doc := d\<rparr>)))"

definition handleText :: "parser \<Rightarrow> Token \<Rightarrow> panic + parser" where
  "handleText p token =
     (if length (tagStack p) > 0 \<and> tagStack p ! (length (tagStack p) - 1) = atom_Style
      then Inr p
      else parser_appendText (p\<lparr>doc := style (doc p) (tagStack p)\<rparr>) (Data token) False)"

text \<open>The body of the loop over the attributes of an \<^verbatim>\<open>img\<close> tag, for one attribute.\<close>

definition imgAttr :: "externals \<Rightarrow> parser \<Rightarrow> Attr \<Rightarrow> panic + parser" where
  "imgAttr X p a =
     (let k = Lookup (Key a) in
      if k = atom_Alt then
        parser_appendText p (''Alt text: '' @ Val a @ [CHR 0x0A]) False
      else if k = atom_Src then
        (if getTableCell p \<noteq> None then Inr p
         else case find (\<lambda>item. HREF item = Val a) (items p) of
                None \<Rightarrow> Inr p
              | Some item \<Rightarrow>
                  (case imageToText X item of
                     Inl e \<Rightarrow> Inl e
                   | Inr text \<Rightarrow> parser_appendText p text True))
      else Inr p)"

fun imgAttrs :: "externals \<Rightarrow> parser \<Rightarrow> Attr list \<Rightarrow> panic + parser" where
  "imgAttrs X p [] = Inr p"
| "imgAttrs X p (a # as) =
     (case imgAttr X p a of Inl e \<Rightarrow> Inl e | Inr p' \<Rightarrow> imgAttrs X p' as)"

definition handleStartTag :: "externals \<Rightarrow> parser \<Rightarrow> Token \<Rightarrow> panic + parser" where
  "handleStartTag X p token =
     (case DataAtom token of
        atom_Img \<Rightarrow> imgAttrs X p (Attr token)
      | atom_Br \<Rightarrow> parser_appendText p [CHR 0x0A] True
      | atom_P \<Rightarrow> Inr (p\<lparr>doc := (doc p)\<lparr>col := col (doc p) + 2\<rparr>\<rparr>)
      | atom_Hr \<Rightarrow>
          let p1 = p\<lparr>doc := (doc p)\<lparr>col := 0\<rparr>\<rparr> in
          if width (doc p1) < 0 then Inl NegativeRepeatCount
          else parser_appendText p1 (replicate (nat (width (doc p1))) CHR ''-'') True
      | atom_Table \<Rightarrow> Inr (p\<lparr>tableStack := tableStack p @ [[]]\<rparr>)
      | atom_Tr \<Rightarrow>
          let tableI = int (length (tableStack p)) - 1 in
          if tableI < 0 then Inl (IndexOutOfRange tableI)
          else Inr (p\<lparr>tableStack :=
                      (tableStack p)[nat tableI := tableStack p ! nat tableI @ [[]]]\<rparr>)
      | atom_Td \<Rightarrow>
          let tableI = int (length (tableStack p)) - 1 in
          if tableI < 0 then Inl (IndexOutOfRange tableI)
          else
            let table = tableStack p ! nat tableI;
                rowI = int (length table) - 1
            in
            if rowI < 0 then Inl (IndexOutOfRange rowI)
            else Inr (p\<lparr>tableStack :=
                        (tableStack p)[nat tableI := table[nat rowI := table ! nat rowI @ [[]]]]\<rparr>)
      | _ \<Rightarrow> Inr p)"

definition handleEndTag :: "externals \<Rightarrow> parser \<Rightarrow> Token \<Rightarrow> panic + parser" where
  "handleEndTag X p token =
     (case DataAtom token of
        atom_Table \<Rightarrow>
          let tableI = int (length (tableStack p)) - 1 in
          if tableI < 0 then Inl (IndexOutOfRange tableI)
          else
            let buf = TableRender X (tableStack p ! nat tableI) True True;
                p1 = p\<lparr>tableStack := take (nat tableI) (tableStack p)\<rparr>
            in
            (case parser_appendText p1 [CHR 0x0A] True of
               Inl e \<Rightarrow> Inl e
             | Inr p2 \<Rightarrow> parser_appendText p2 buf True)
      | _ \<Rightarrow> Inr p)"

subsection \<open>parse and parseText\<close>

text \<open>The \<^verbatim>\<open>switch\<close> of the loop of \<^verbatim>\<open>parse\<close>, for a token that is not the error token.\<close>

definition parseToken :: "externals \<Rightarrow> parser \<Rightarrow> Token \<Rightarrow> panic + parser" where
  "parseToken X p token =
     (case Type token of
        StartTagToken \<Rightarrow> handleStartTag X (p\<lparr>tagStack := tagStack p @ [DataAtom token]\<rparr>) token
      | SelfClosingTagToken \<Rightarrow> handleStartTag X p token
      | TextToken \<Rightarrow> handleText p token
      | EndTagToken \<Rightarrow>
          (case handleEndTag X p token of
             Inl e \<Rightarrow> Inl e
           | Inr p' \<Rightarrow>
               if int (length (tagStack p')) - 1 < 0
               then Inl (SliceBoundsOutOfRange (int (length (tagStack p')) - 1))
               else Inr (p'\<lparr>tagStack := take (length (tagStack p') - 1) (tagStack p')\<rparr>))
      | _ \<Rightarrow> Inr p)"

text \<open>
  The loop of \<^verbatim>\<open>parse\<close> over a run of the tokenizer: the tokens, then the error token
  with the error \<open>e\<close>. The result is the parser with the returned \<^verbatim>\<open>err\<close> (\<open>None\<close> is
  \<^verbatim>\<open>nil\<close>).
\<close>

fun parse :: "externals \<Rightarrow> parser \<Rightarrow> Token list \<Rightarrow> error \<Rightarrow> panic + parser \<times> error option" where
  "parse X p [] e = (if e = EOF then Inr (p, None) else Inr (p, Some e))"
| "parse X p (token # rest) e =
     (case parseToken X p token of Inl x \<Rightarrow> Inl x | Inr p' \<Rightarrow> parse X p' rest e)"

text \<open>The document \<^verbatim>\<open>cellbuf{width: 80}\<close> and the parser that \<^verbatim>\<open>parseText\<close> starts from.\<close>

definition newDoc :: cellbuf where
  "newDoc = \<lparr>cells = [], width = 80, lmargin = 0, col = 0, row = 0, fg = 0, bg = 0\<rparr>"

definition newParser :: "Item list \<Rightarrow> parser" where
  "newParser its = \<lparr>tagStack = [], tableStack = [], doc = newDoc, items = its\<rparr>"

definition parseText :: "externals \<Rightarrow> Token list \<Rightarrow> error \<Rightarrow> Item list \<Rightarrow> panic + cellbuf \<times> error option" where
  "parseText X tokens e its =
     (case parse X (newParser its) tokens e of
        Inl x \<Rightarrow> Inl x
      | Inr (p', err) \<Rightarrow>
          (case err of Some e' \<Rightarrow> Inr (doc p', Some e') | None \<Rightarrow> Inr (doc p', None)))"

text \<open>
  The loop body of \<^verbatim>\<open>parse\<close> run over a list of tokens, without the error token that
  ends the loop.
\<close>

fun parseTokens :: "externals \<Rightarrow> parser \<Rightarrow> Token list \<Rightarrow> panic + parser" where
  "parseTokens X p [] = Inr p"
| "parseTokens X p (token # rest) =
     (case parseToken X p token of Inl x \<Rightarrow> Inl x | Inr p' \<Rightarrow> parseTokens X p' rest)"

text \<open>
  An instance of the external packages for closed examples: a decoder that rejects
  every input, and a table writer that writes one line for each row.
\<close>

definition sampleExternals :: externals where
  "sampleExternals =
     \<lparr>Decode = (\<lambda>data. Inl (OtherError ''image: unknown format'')),
      Resize = (\<lambda>w h img. img),
      TableRender = (\<lambda>rows border rowLine.
        concat (map (\<lambda>r. concat (map (\<lambda>cell. ''| '' @ cell @ '' '') r) @ ''|'' @ [CHR 0x0A])
                    rows))\<rparr>"

text \<open>
  The focused cell in the words of the specification: it exists when the table stack,
  its top table and that table's top row are all non-empty, and it is the last cell of
  the last row of the last table.
\<close>

definition focusedCell :: "string list list list \<Rightarrow> bool" where
  "focusedCell ts \<longleftrightarrow> ts \<noteq> [] \<and> last ts \<noteq> [] \<and> last (last ts) \<noteq> []"

definition appendToFocused :: "string list list list \<Rightarrow> string \<Rightarrow> string list list list" where
  "appendToFocused ts s =
     butlast ts @ [butlast (last ts) @ [butlast (last (last ts)) @ [last (last (last ts)) @ s]]]"

text \<open>
  \<open>wordAt c w x y\<close>: the runes of \<open>w\<close> are in the cells of row \<open>y\<close> of the buffer, one
  after the other from column \<open>x\<close> on, with the attributes of the buffer.
\<close>

definition wordAt :: "cellbuf \<Rightarrow> rune list \<Rightarrow> int \<Rightarrow> int \<Rightarrow> bool" where
  "wordAt c w x y \<longleftrightarrow>
     (\<forall>k < length w.
        nat (y * width c + x + int k) < length (cells c) \<and>
        cells c ! nat (y * width c + x + int k) = \<lparr>Ch = w ! k, Fg = fg c, Bg = bg c\<rparr>)"

text \<open>
  The cursor of a buffer that the code of parse.go has built: no dimension is negative,
  and the column is not left of the margin.
\<close>

definition okCursor :: "cellbuf \<Rightarrow> bool" where
  "okCursor c \<longleftrightarrow> 0 \<le> width c \<and> 0 \<le> lmargin c \<and> lmargin c \<le> col c \<and> 0 \<le> row c"

text \<open>
  \<open>steps ts\<close>: the number of runes of the tokens \<open>ts\<close> plus the number of tokens, a bound
  on the rows and on the columns by which \<^verbatim>\<open>appendText\<close> can move the cursor for them.
  \<open>inRange c ts\<close>: the row, the column and the cell index that the cursor of \<open>c\<close> can
  reach with the tokens \<open>ts\<close> fit Go's 64-bit \<^verbatim>\<open>int\<close>.
\<close>

definition steps :: "string list \<Rightarrow> int" where
  "steps ts = sum_list (map (\<lambda>u. int (length (runes u)) + 1) ts)"

definition inRange :: "cellbuf \<Rightarrow> string list \<Rightarrow> bool" where
  "inRange c ts \<longleftrightarrow>
     row c + steps ts < 2 ^ 63 \<and>
     (row c + steps ts) * width c + (max (col c) (lmargin c) + steps ts) < 2 ^ 63"

text \<open>
  The tokens that the tokenizer returns for \<^verbatim>\<open><p>Hello <b>world</b></p>\<close>; the atom of
  a text token is 0.
\<close>

definition helloTokens :: "Token list" where
  "helloTokens =
     [\<lparr>Type = StartTagToken, DataAtom = atom_P, Data = ''p'', Attr = []\<rparr>,
      \<lparr>Type = TextToken, DataAtom = atom_Other 0, Data = ''Hello '', Attr = []\<rparr>,
      \<lparr>Type = StartTagToken, DataAtom = atom_B, Data = ''b'', Attr = []\<rparr>,
      \<lparr>Type = TextToken, DataAtom = atom_Other 0, Data = ''world'', Attr = []\<rparr>,
      \<lparr>Type = EndTagToken, DataAtom = atom_B, Data = ''b'', Attr = []\<rparr>,
      \<lparr>Type = EndTagToken, DataAtom = atom_P, Data = ''p'', Attr = []\<rparr>]"

text \<open>
  The attribute of one tag in the words of the specification: bold for b, strong and
  em, yellow for i, red for title, magenta for h1, blue for h2, cyan for h3 to h6, and
  nothing for any other tag.
\<close>

definition tagAttribute :: "atom \<Rightarrow> Attribute" where
  "tagAttribute tag =
     (if tag \<in> {atom_B, atom_Strong, atom_Em} then AttrBold
      else if tag = atom_I then ColorYellow
      else if tag = atom_Title then ColorRed
      else if tag = atom_H1 then ColorMagenta
      else if tag = atom_H2 then ColorBlue
      else if tag \<in> {atom_H3, atom_H4, atom_H5, atom_H6} then ColorCyan
      else 0)"

text \<open>
  The tokens of \<^verbatim>\<open><table><tr><td>x<table><tr><td>y</td></tr></table>\<close>: a table nested in
  a cell, up to the end of the inner table.
\<close>

definition nestedTableTokens :: "Token list" where
  "nestedTableTokens =
     [\<lparr>Type = StartTagToken, DataAtom = atom_Table, Data = ''table'', Attr = []\<rparr>,
      \<lparr>Type = StartTagToken, DataAtom = atom_Tr, Data = ''tr'', Attr = []\<rparr>,
      \<lparr>Type = StartTagToken, DataAtom = atom_Td, Data = ''td'', Attr = []\<rparr>,
      \<lparr>Type = TextToken, DataAtom = atom_Other 0, Data = ''x'', Attr = []\<rparr>,
      \<lparr>Type = StartTagToken, DataAtom = atom_Table, Data = ''table'', Attr = []\<rparr>,
      \<lparr>Type = StartTagToken, DataAtom = atom_Tr, Data = ''tr'', Attr = []\<rparr>,
      \<lparr>Type = StartTagToken, DataAtom = atom_Td, Data = ''td'', Attr = []\<rparr>,
      \<lparr>Type = TextToken, DataAtom = atom_Other 0, Data = ''y'', Attr = []\<rparr>,
      \<lparr>Type = EndTagToken, DataAtom = atom_Td, Data = ''td'', Attr = []\<rparr>,
      \<lparr>Type = EndTagToken, DataAtom = atom_Tr, Data = ''tr'', Attr = []\<rparr>,
      \<lparr>Type = EndTagToken, DataAtom = atom_Table, Data = ''table'', Attr = []\<rparr>]"

text \<open>
  The background of a buffer is the default: the attribute \<^verbatim>\<open>bg\<close> for cells to come, and
  the background of every cell of the backing array.
\<close>

definition defaultBackground :: "cellbuf \<Rightarrow> bool" where
  "defaultBackground c \<longleftrightarrow>
     bg c = ColorDefault \<and> (\<forall>cell \<in> set (cells c). Bg cell = ColorDefault)"

section \<open>Properties of the cell buffer\<close>

subsection \<open>Growth of the backing array\<close>

lemma grow_shape:
  "\<exists>k. grow cs i = cs @ replicate (1024 * k) zeroCell \<and>
       (k = 0 \<or> int (length cs) + 1024 * int k \<le> i + 1024) \<and>
       i < int (length cs) + 1024 * int k"
proof (induction cs i rule: grow.induct)
  case (1 cs i)
  show ?case
  proof (cases "i \<ge> int (length cs)")
    case True
    from 1 [OF True] obtain k where
      k: "grow (cs @ replicate 1024 zeroCell) i =
            (cs @ replicate 1024 zeroCell) @ replicate (1024 * k) zeroCell"
         "k = 0 \<or> int (length (cs @ replicate 1024 zeroCell)) + 1024 * int k \<le> i + 1024"
         "i < int (length (cs @ replicate 1024 zeroCell)) + 1024 * int k"
      by blast
    have "grow cs i = cs @ replicate (1024 * Suc k) zeroCell"
      using True k(1) by (subst grow.simps) (simp add: replicate_add [symmetric])
    moreover have "int (length cs) + 1024 * int (Suc k) \<le> i + 1024"
      using True k(2) by auto
    moreover have "i < int (length cs) + 1024 * int (Suc k)"
      using k(3) by simp
    ultimately show ?thesis by blast
  next
    case False
    then have "grow cs i = cs @ replicate (1024 * 0) zeroCell"
      by (subst grow.simps) simp
    with False show ?thesis by (intro exI [of _ 0]) simp
  qed
qed

lemma wrap64_id: "0 \<le> i \<Longrightarrow> i < 2 ^ 63 \<Longrightarrow> wrap64 i = i"
  by (simp add: wrap64_def)

lemma setCell_Inr:
  assumes "0 \<le> y * width c + x" and "y * width c + x < 2 ^ 63"
  shows "setCell c x y ch f b =
     Inr (c\<lparr>cells := (grow (cells c) (y * width c + x))
                        [nat (y * width c + x) := \<lparr>Ch = ch, Fg = f, Bg = b\<rparr>]\<rparr>)"
proof -
  obtain k where "y * width c + x < int (length (cells c)) + 1024 * int k"
     "grow (cells c) (y * width c + x) = cells c @ replicate (1024 * k) zeroCell"
    using grow_shape [of "cells c" "y * width c + x"] by auto
  then have "y * width c + x < int (length (grow (cells c) (y * width c + x)))"
    by simp
  with assms show ?thesis
    by (simp add: setCell_def store_def wrap64_id)
qed

text \<open>
  Claim C6, amended. With a column \<open>x\<close> and a row \<open>y\<close> that are not negative (on a buffer
  of width 80, or of any width that is not negative) and an index \<open>y * width + x\<close> below
  \<open>2 ^ 63\<close>, \<^verbatim>\<open>setCell\<close> does not panic: the index is inside the backing array when the
  cell is stored. The array has grown by \<open>k\<close> blocks of 1024 cells, and by no more blocks
  than the index needs; the new cell is at the index, every cell that was there before,
  at another index, is as it was, and no other field of the buffer changes.
\<close>

theorem setCell_in_bounds:
  assumes "0 \<le> x" and "0 \<le> y" and "0 \<le> width c" and "y * width c + x < 2 ^ 63"
  shows "\<exists>c' k. setCell c x y ch f b = Inr c' \<and>
           c'\<lparr>cells := cells c\<rparr> = c \<and>
           length (cells c') = length (cells c) + 1024 * k \<and>
           (k = 0 \<or> int (length (cells c')) \<le> y * width c + x + 1024) \<and>
           nat (y * width c + x) < length (cells c') \<and>
           cells c' ! nat (y * width c + x) = \<lparr>Ch = ch, Fg = f, Bg = b\<rparr> \<and>
           (\<forall>j < length (cells c). j \<noteq> nat (y * width c + x) \<longrightarrow> cells c' ! j = cells c ! j)"
proof -
  let ?i = "y * width c + x"
  have i0: "0 \<le> ?i" using assms by simp
  obtain k where k: "grow (cells c) ?i = cells c @ replicate (1024 * k) zeroCell"
      "k = 0 \<or> int (length (cells c)) + 1024 * int k \<le> ?i + 1024"
      "?i < int (length (cells c)) + 1024 * int k"
    using grow_shape [of "cells c" ?i] by blast
  let ?c' = "c\<lparr>cells := (grow (cells c) ?i)[nat ?i := \<lparr>Ch = ch, Fg = f, Bg = b\<rparr>]\<rparr>"
  have "setCell c x y ch f b = Inr ?c'" by (rule setCell_Inr [OF i0 assms(4)])
  moreover have "?c'\<lparr>cells := cells c\<rparr> = c" by simp
  moreover have "length (cells ?c') = length (cells c) + 1024 * k" using k(1) by simp
  moreover have "k = 0 \<or> int (length (cells ?c')) \<le> ?i + 1024" using k(1,2) by simp
  moreover have lt: "nat ?i < length (cells ?c')" using k(1,3) i0 by simp
  moreover have "cells ?c' ! nat ?i = \<lparr>Ch = ch, Fg = f, Bg = b\<rparr>" using lt by simp
  moreover have "\<forall>j < length (cells c). j \<noteq> nat ?i \<longrightarrow> cells ?c' ! j = cells c ! j"
    using k(1) by (simp add: nth_append)
  ultimately show ?thesis by blast
qed

text \<open>Row 1000, column 79 of an empty document of width 80: the index is 80079.\<close>

theorem setCell_in_bounds_witness:
  "\<exists>c' k. setCell \<lparr>cells = [], width = 80, lmargin = 0, col = 0, row = 0, fg = 0, bg = 0\<rparr>
             79 1000 65 0 0 = Inr c' \<and>
     length (cells c') = 1024 * k \<and> 80079 < length (cells c') \<and>
     length (cells c') \<le> 81103 \<and> cells c' ! 80079 = \<lparr>Ch = 65, Fg = 0, Bg = 0\<rparr>"
  using setCell_in_bounds
    [of 79 1000 "\<lparr>cells = [], width = 80, lmargin = 0, col = 0, row = 0, fg = 0, bg = 0\<rparr>" 65 0 0]
  by auto

text \<open>
  The claim as stated, for every row, fails where the index leaves the range of
  \<^verbatim>\<open>int\<close>: in column 0 of row 115292150460684698 of the empty document of width 80 the
  product is \<open>2 ^ 63 + 32\<close> and wraps to a negative index; the loop does not run, and the
  store panics.
\<close>

theorem setCell_index_wraps_counterexample:
  "setCell newDoc 0 115292150460684698 65 0 0 = Inl (IndexOutOfRange (- 9223372036854775776))"
  by (simp add: setCell_def wrap64_def newDoc_def grow.simps store_def)

subsection \<open>Style\<close>

lemma styleTag_tagAttribute: "styleTag f tag = f OR tagAttribute tag"
  by (cases tag) (simp_all add: tagAttribute_def)

lemma styleLoop_fold: "styleLoop f tags = fold (\<lambda>tag f. f OR tagAttribute tag) tags f"
  by (induction tags arbitrary: f) (simp_all add: styleTag_tagAttribute)

lemma fold_or_permute:
  assumes "mset tags' = mset tags"
  shows "fold (\<lambda>tag f. f OR tagAttribute tag) tags' = fold (\<lambda>tag f. f OR tagAttribute tag) tags"
proof (rule fold_multiset_equiv [OF _ assms])
  fix x y
  show "(\<lambda>f. f OR tagAttribute x) \<circ> (\<lambda>f. f OR tagAttribute y) =
        (\<lambda>f. f OR tagAttribute y) \<circ> (\<lambda>f. f OR tagAttribute x)"
    by (simp add: fun_eq_iff ac_simps)
qed

subsection \<open>Word wrapping\<close>

text \<open>
  The cell index is a 64-bit product, so the properties of the word wrapping hold while
  the indices that the cursor can reach are in range. A token of \<open>n\<close> runes moves the
  cursor by at most \<open>n + 1\<close> rows (one for the line break before the token and one for
  each newline rune in it) and by at most \<open>n + 1\<close> columns.
\<close>

lemma steps_nonneg: "0 \<le> steps ts"
  by (induction ts) (simp_all add: steps_def)

lemma steps_Cons: "steps (t # ts) = int (length (runes t)) + 1 + steps ts"
  by (simp add: steps_def)


lemma index_mono:
  "0 \<le> w \<Longrightarrow> r1 \<le> r2 \<Longrightarrow> x1 \<le> x2 \<Longrightarrow> r1 * w + x1 \<le> r2 * w + (x2 :: int)"
  by (simp add: add_mono mult_right_mono)

lemma setCell_result:
  assumes "0 \<le> y * width c + x" and "y * width c + x < 2 ^ 63"
  shows "\<exists>cs. setCell c x y ch f b = Inr (c\<lparr>cells := cs\<rparr>) \<and>
           length (cells c) \<le> length cs \<and>
           nat (y * width c + x) < length cs \<and>
           cs ! nat (y * width c + x) = \<lparr>Ch = ch, Fg = f, Bg = b\<rparr> \<and>
           (\<forall>j < length (cells c). j \<noteq> nat (y * width c + x) \<longrightarrow> cs ! j = cells c ! j)"
proof -
  let ?i = "y * width c + x"
  obtain k where k: "grow (cells c) ?i = cells c @ replicate (1024 * k) zeroCell"
      "?i < int (length (cells c)) + 1024 * int k"
    using grow_shape [of "cells c" ?i] by blast
  let ?cs = "(grow (cells c) ?i)[nat ?i := \<lparr>Ch = ch, Fg = f, Bg = b\<rparr>]"
  have "setCell c x y ch f b = Inr (c\<lparr>cells := ?cs\<rparr>)" by (rule setCell_Inr [OF assms])
  moreover have "length (cells c) \<le> length ?cs" using k(1) by simp
  moreover have lt: "nat ?i < length ?cs" using k assms by simp
  moreover have "?cs ! nat ?i = \<lparr>Ch = ch, Fg = f, Bg = b\<rparr>" using lt by simp
  moreover have "\<forall>j < length (cells c). j \<noteq> nat ?i \<longrightarrow> ?cs ! j = cells c ! j"
    using k(1) by (simp add: nth_append)
  ultimately show ?thesis by blast
qed

lemma putRunes_plain:
  assumes "10 \<notin> set w" and "0 \<le> row c * width c + col c"
    and "row c * width c + col c + int (length w) \<le> 2 ^ 63"
  shows "\<exists>cs. putRunes c w = Inr (c\<lparr>cells := cs, col := col c + int (length w)\<rparr>) \<and>
           length (cells c) \<le> length cs \<and>
           (\<forall>j. j < nat (row c * width c + col c) \<longrightarrow> j < length (cells c) \<longrightarrow>
                cs ! j = cells c ! j) \<and>
           (\<forall>k < length w.
                nat (row c * width c + col c) + k < length cs \<and>
                cs ! (nat (row c * width c + col c) + k) = \<lparr>Ch = w ! k, Fg = fg c, Bg = bg c\<rparr>)"
  using assms
proof (induction w arbitrary: c)
  case Nil
  then show ?case by (intro exI [of _ "cells c"]) simp
next
  case (Cons r rs)
  let ?i = "row c * width c + col c"
  from Cons.prems have r: "r \<noteq> 10" and rs: "10 \<notin> set rs" and i0: "0 \<le> ?i"
    and i1: "?i < 2 ^ 63" and i2: "?i + 1 + int (length rs) \<le> 2 ^ 63"
    by auto
  obtain cs1 where cs1: "setCell c (col c) (row c) r (fg c) (bg c) = Inr (c\<lparr>cells := cs1\<rparr>)"
      "length (cells c) \<le> length cs1" "nat ?i < length cs1"
      "cs1 ! nat ?i = \<lparr>Ch = r, Fg = fg c, Bg = bg c\<rparr>"
      "\<forall>j < length (cells c). j \<noteq> nat ?i \<longrightarrow> cs1 ! j = cells c ! j"
    using setCell_result [OF i0 i1, of r "fg c" "bg c"] by blast
  let ?c2 = "c\<lparr>cells := cs1, col := col c + 1\<rparr>"
  have a: "0 \<le> row ?c2 * width ?c2 + col ?c2" using i0 by simp
  have b: "row ?c2 * width ?c2 + col ?c2 + int (length rs) \<le> 2 ^ 63" using i2 by simp
  from Cons.IH [OF rs a b] obtain cs where
    cs: "putRunes ?c2 rs = Inr (?c2\<lparr>cells := cs, col := col ?c2 + int (length rs)\<rparr>)"
      "length cs1 \<le> length cs"
      "\<forall>j. j < nat (?i + 1) \<longrightarrow> j < length cs1 \<longrightarrow> cs ! j = cs1 ! j"
      "\<forall>k < length rs. nat (?i + 1) + k < length cs \<and>
           cs ! (nat (?i + 1) + k) = \<lparr>Ch = rs ! k, Fg = fg c, Bg = bg c\<rparr>"
    by (auto simp: add.assoc)
  have n: "nat (?i + 1) = Suc (nat ?i)" using i0 by simp
  have "putRunes c (r # rs) = Inr (c\<lparr>cells := cs, col := col c + int (length (r # rs))\<rparr>)"
    using r cs1(1) cs(1) by (simp add: add.assoc)
  moreover have "length (cells c) \<le> length cs" using cs1(2) cs(2) by simp
  moreover have "\<forall>j. j < nat ?i \<longrightarrow> j < length (cells c) \<longrightarrow> cs ! j = cells c ! j"
    using cs(3) cs1(2,5) n by auto
  moreover have "\<forall>k < length (r # rs). nat ?i + k < length cs \<and>
       cs ! (nat ?i + k) = \<lparr>Ch = (r # rs) ! k, Fg = fg c, Bg = bg c\<rparr>"
  proof (intro allI impI)
    fix k assume k: "k < length (r # rs)"
    show "nat ?i + k < length cs \<and> cs ! (nat ?i + k) = \<lparr>Ch = (r # rs) ! k, Fg = fg c, Bg = bg c\<rparr>"
    proof (cases k)
      case 0
      with cs1(3,4) cs(2,3) n show ?thesis by auto
    next
      case (Suc k')
      with k have "k' < length rs" by simp
      with cs(4) n Suc show ?thesis by auto
    qed
  qed
  ultimately show ?case by blast
qed

lemma okCursor_index: "okCursor c \<Longrightarrow> 0 \<le> row c * width c + col c"
  by (simp add: okCursor_def)

text \<open>
  The loop over the runes of any word, newlines included: it does not panic while the
  indices it can reach are in range; it moves the cursor by at most one row or one
  column for each rune, and leaves the cells of the rows above the cursor as they are.
\<close>

lemma putRunes_range:
  assumes "okCursor c"
    and "(row c + int (length w)) * width c + (col c + int (length w)) < 2 ^ 63"
  shows "\<exists>c'. putRunes c w = Inr c' \<and> okCursor c' \<and> width c' = width c \<and>
           lmargin c' = lmargin c \<and> fg c' = fg c \<and> bg c' = bg c \<and>
           row c \<le> row c' \<and> row c' \<le> row c + int (length w) \<and>
           col c' \<le> col c + int (length w) \<and>
           length (cells c) \<le> length (cells c') \<and>
           (\<forall>j. j < nat (row c * width c) \<longrightarrow> j < length (cells c) \<longrightarrow>
                cells c' ! j = cells c ! j)"
  using assms
proof (induction w arbitrary: c)
  case Nil
  then show ?case by simp
next
  case (Cons r rs)
  let ?n = "int (length rs)"
  from Cons.prems(1) have w0: "0 \<le> width c" and m: "lmargin c \<le> col c" and r0: "0 \<le> row c"
    and l0: "0 \<le> lmargin c"
    by (simp_all add: okCursor_def)
  from Cons.prems(2) have H: "(row c + (?n + 1)) * width c + (col c + (?n + 1)) < 2 ^ 63"
    by (simp add: add.commute)
  show ?case
  proof (cases "r = 10")
    case True
    let ?c1 = "c\<lparr>row := row c + 1, col := lmargin c\<rparr>"
    have ok1: "okCursor ?c1" using Cons.prems(1) by (simp add: okCursor_def)
    have "(row c + 1 + ?n) * width c + (lmargin c + ?n) \<le> (row c + (?n + 1)) * width c + (col c + (?n + 1))"
      using w0 m by (intro index_mono) simp_all
    with H have "(row ?c1 + ?n) * width ?c1 + (col ?c1 + ?n) < 2 ^ 63" by simp
    from Cons.IH [OF ok1 this] obtain c' where
      c': "putRunes ?c1 rs = Inr c'" "okCursor c'" "width c' = width c" "lmargin c' = lmargin c"
        "fg c' = fg c" "bg c' = bg c" "row c + 1 \<le> row c'" "row c' \<le> row c + 1 + ?n"
        "col c' \<le> lmargin c + ?n" "length (cells c) \<le> length (cells c')"
        "\<forall>j. j < nat ((row c + 1) * width c) \<longrightarrow> j < length (cells c) \<longrightarrow>
             cells c' ! j = cells c ! j"
      by auto
    have "row c * width c \<le> (row c + 1) * width c" using w0 by (simp add: mult_right_mono)
    then have "nat (row c * width c) \<le> nat ((row c + 1) * width c)" by simp
    with c' True m show ?thesis by (intro exI [of _ c']) auto
  next
    case False
    let ?i = "row c * width c + col c"
    have i0: "0 \<le> ?i" by (rule okCursor_index [OF Cons.prems(1)])
    have "row c * width c + col c \<le> (row c + (?n + 1)) * width c + (col c + (?n + 1))"
      using w0 by (intro index_mono) simp_all
    with H have i1: "?i < 2 ^ 63" by simp
    obtain cs1 where cs1: "setCell c (col c) (row c) r (fg c) (bg c) = Inr (c\<lparr>cells := cs1\<rparr>)"
        "length (cells c) \<le> length cs1"
        "\<forall>j < length (cells c). j \<noteq> nat ?i \<longrightarrow> cs1 ! j = cells c ! j"
      using setCell_result [OF i0 i1, of r "fg c" "bg c"] by blast
    let ?c2 = "c\<lparr>cells := cs1, col := col c + 1\<rparr>"
    have ok2: "okCursor ?c2" using Cons.prems(1) by (simp add: okCursor_def)
    have "(row c + ?n) * width c + (col c + 1 + ?n) \<le> (row c + (?n + 1)) * width c + (col c + (?n + 1))"
      using w0 by (intro index_mono) simp_all
    with H have "(row ?c2 + ?n) * width ?c2 + (col ?c2 + ?n) < 2 ^ 63" by simp
    from Cons.IH [OF ok2 this] obtain c' where
      c': "putRunes ?c2 rs = Inr c'" "okCursor c'" "width c' = width c" "lmargin c' = lmargin c"
        "fg c' = fg c" "bg c' = bg c" "row c \<le> row c'" "row c' \<le> row c + ?n"
        "col c' \<le> col c + 1 + ?n" "length cs1 \<le> length (cells c')"
        "\<forall>j. j < nat (row c * width c) \<longrightarrow> j < length cs1 \<longrightarrow> cells c' ! j = cs1 ! j"
      by auto
    have lt: "nat (row c * width c) \<le> nat ?i" using m l0 by simp
    have pres: "\<forall>j. j < nat (row c * width c) \<longrightarrow> j < length (cells c) \<longrightarrow>
                cells c' ! j = cells c ! j"
      using c'(11) cs1(2,3) lt by auto
    have "putRunes c (r # rs) = Inr c'" using False cs1(1) c'(1) by simp
    with c' cs1(2) pres show ?thesis by (intro exI [of _ c']) auto
  qed
qed


lemma appendWord_range:
  assumes "okCursor c"
    and "(row c + (int (length (runes t)) + 1)) * width c
           + (col c + (int (length (runes t)) + 1)) < 2 ^ 63"
  shows "\<exists>c'. appendWord c t = Inr c' \<and> okCursor c' \<and> width c' = width c \<and>
           lmargin c' = lmargin c \<and> fg c' = fg c \<and> bg c' = bg c \<and>
           (if int (length (runes t)) > width c - col c then row c + 1 else row c) \<le> row c' \<and>
           row c' \<le> row c + (int (length (runes t)) + 1) \<and>
           col c' \<le> col c + (int (length (runes t)) + 1) \<and>
           length (cells c) \<le> length (cells c') \<and>
           (\<forall>j. j < nat ((if int (length (runes t)) > width c - col c then row c + 1 else row c)
                          * width c) \<longrightarrow>
                j < length (cells c) \<longrightarrow> cells c' ! j = cells c ! j)"
proof -
  let ?n = "int (length (runes t))"
  let ?c1 = "if ?n > width c - col c then c\<lparr>row := row c + 1, col := lmargin c\<rparr> else c"
  from assms(1) have w0: "0 \<le> width c" and m: "lmargin c \<le> col c"
    by (simp_all add: okCursor_def)
  have ok1: "okCursor ?c1" using assms(1) by (simp add: okCursor_def)
  have c1: "width ?c1 = width c" "lmargin ?c1 = lmargin c" "fg ?c1 = fg c" "bg ?c1 = bg c"
    "cells ?c1 = cells c" "row ?c1 = (if ?n > width c - col c then row c + 1 else row c)"
    "row ?c1 \<le> row c + 1" "col ?c1 \<le> col c"
    using m by simp_all
  have "(row ?c1 + ?n) * width c + (col ?c1 + ?n) \<le> (row c + (?n + 1)) * width c + (col c + (?n + 1))"
    using w0 c1(7,8) by (intro index_mono) simp_all
  with assms(2) have "(row ?c1 + ?n) * width ?c1 + (col ?c1 + ?n) < 2 ^ 63"
    by (simp only: c1(1))
  from putRunes_range [OF ok1 this] obtain c2 where
    c2: "putRunes ?c1 (runes t) = Inr c2" "okCursor c2" "width c2 = width c"
      "lmargin c2 = lmargin c" "fg c2 = fg c" "bg c2 = bg c"
      "row ?c1 \<le> row c2" "row c2 \<le> row ?c1 + ?n" "col c2 \<le> col ?c1 + ?n"
      "length (cells c) \<le> length (cells c2)"
      "\<forall>j. j < nat (row ?c1 * width c) \<longrightarrow> j < length (cells c) \<longrightarrow> cells c2 ! j = cells c ! j"
    unfolding c1(1-5) by blast
  let ?c3 = "if col c2 \<noteq> lmargin c2 then c2\<lparr>col := col c2 + 1\<rparr> else c2"
  have a: "appendWord c t = Inr ?c3" using c2(1) by (simp add: appendWord_def Let_def)
  have ok3: "okCursor ?c3" using c2(2) by (simp add: okCursor_def)
  have fr: "width ?c3 = width c" "lmargin ?c3 = lmargin c" "fg ?c3 = fg c" "bg ?c3 = bg c"
    "row ?c3 = row c2" "cells ?c3 = cells c2" "col ?c3 \<le> col c2 + 1"
    using c2(3-6) by simp_all
  have r1: "(if ?n > width c - col c then row c + 1 else row c) \<le> row ?c3"
    using c2(7) fr(5) c1(6) by simp
  have r2: "row ?c3 \<le> row c + (?n + 1)" using c2(8) c1(7) fr(5) by simp
  have r3: "col ?c3 \<le> col c + (?n + 1)" using c2(9) c1(8) fr(7) by linarith
  have p1: "length (cells c) \<le> length (cells ?c3)" using c2(10) fr(6) by simp
  have p2: "\<forall>j. j < nat ((if ?n > width c - col c then row c + 1 else row c) * width c) \<longrightarrow>
                j < length (cells c) \<longrightarrow> cells ?c3 ! j = cells c ! j"
    using c2(11) c1(6) fr(6) by simp
  from a ok3 fr(1-4) r1 r2 r3 p1 p2 show ?thesis by blast
qed



lemma appendWord_plain:
  assumes ok: "okCursor c" and nl: "10 \<notin> set (runes t)"
    and rg: "(row c + (int (length (runes t)) + 1)) * width c
               + (col c + (int (length (runes t)) + 1)) < 2 ^ 63"
  defines "x0 \<equiv> (if int (length (runes t)) > width c - col c then lmargin c else col c)"
    and "y0 \<equiv> (if int (length (runes t)) > width c - col c then row c + 1 else row c)"
  shows "\<exists>c2. appendWord c t = Inr c2 \<and> okCursor c2 \<and> width c2 = width c \<and>
           lmargin c2 = lmargin c \<and> fg c2 = fg c \<and> bg c2 = bg c \<and> row c2 = y0 \<and>
           col c2 = (if runes t = [] \<and> x0 = lmargin c then x0 else x0 + int (length (runes t)) + 1) \<and>
           wordAt c2 (runes t) x0 y0"
proof -
  let ?w = "runes t"
  let ?c1 = "if int (length ?w) > width c - col c
             then c\<lparr>row := row c + 1, col := lmargin c\<rparr> else c"
  from ok have w0: "0 \<le> width c" and m: "lmargin c \<le> col c" by (simp_all add: okCursor_def)
  have c1: "col ?c1 = x0" "row ?c1 = y0" "width ?c1 = width c" "lmargin ?c1 = lmargin c"
    "fg ?c1 = fg c" "bg ?c1 = bg c"
    by (simp_all add: x0_def y0_def)
  have ok1: "okCursor ?c1" using ok by (simp add: okCursor_def)
  have i0: "0 \<le> row ?c1 * width ?c1 + col ?c1" by (rule okCursor_index [OF ok1])
  have "y0 * width c + (x0 + int (length ?w))
          \<le> (row c + (int (length ?w) + 1)) * width c + (col c + (int (length ?w) + 1))"
    using w0 m by (intro index_mono) (simp_all add: x0_def y0_def)
  with rg have i1: "row ?c1 * width ?c1 + col ?c1 + int (length ?w) \<le> 2 ^ 63"
    unfolding c1 by simp
  from putRunes_plain [OF nl i0 i1] obtain cs where
    cs: "putRunes ?c1 ?w = Inr (?c1\<lparr>cells := cs, col := col ?c1 + int (length ?w)\<rparr>)"
      "\<forall>k < length ?w. nat (row ?c1 * width ?c1 + col ?c1) + k < length cs \<and>
          cs ! (nat (row ?c1 * width ?c1 + col ?c1) + k) = \<lparr>Ch = ?w ! k, Fg = fg ?c1, Bg = bg ?c1\<rparr>"
    by blast
  let ?c2 = "?c1\<lparr>cells := cs, col := col ?c1 + int (length ?w)\<rparr>"
  let ?c3 = "if col ?c2 \<noteq> lmargin ?c2 then ?c2\<lparr>col := col ?c2 + 1\<rparr> else ?c2"
  have a: "appendWord c t = Inr ?c3"
    using cs(1) by (simp add: appendWord_def Let_def)
  have x0: "lmargin c \<le> x0" using ok by (simp add: x0_def okCursor_def)
  have fr: "width ?c3 = width c" "lmargin ?c3 = lmargin c" "fg ?c3 = fg c" "bg ?c3 = bg c"
    "row ?c3 = y0" "cells ?c3 = cs"
    by (simp_all add: y0_def)
  have colc3: "col ?c3 = (if ?w = [] \<and> x0 = lmargin c then x0 else x0 + int (length ?w) + 1)"
  proof (cases "?w = []")
    case True
    then show ?thesis by (simp add: x0_def)
  next
    case False
    then obtain n where "length ?w = Suc n" by (cases ?w) auto
    with x0 False show ?thesis by (auto simp: x0_def)
  qed
  have ok3: "okCursor ?c3"
    using ok1 x0 fr colc3 unfolding okCursor_def by (auto split: if_splits)
  have idx: "nat (y0 * width c + x0 + int k) = nat (row ?c1 * width ?c1 + col ?c1) + k" for k
    using i0 c1 by (simp add: nat_add_distrib)
  have w: "wordAt ?c3 ?w x0 y0"
    unfolding wordAt_def fr idx using cs(2) c1 by simp
  from a ok3 fr colc3 w show ?thesis by (intro exI [of _ ?c3]) simp
qed

lemma appendWords_placement:
  assumes "okCursor c"
    and "\<forall>u \<in> set (before @ t # rest).
           10 \<notin> set (runes u) \<and> int (length (runes u)) \<le> width c - lmargin c"
    and "(row c + steps (before @ t # rest)) * width c
           + (col c + steps (before @ t # rest)) < 2 ^ 63"
  shows "\<exists>c1 c2 x0. appendWords c before = Inr c1 \<and> appendWord c1 t = Inr c2 \<and>
           appendWords c (before @ t # rest) = appendWords c2 rest \<and>
           width c2 = width c \<and> fg c2 = fg c \<and> bg c2 = bg c \<and>
           lmargin c \<le> x0 \<and> x0 + int (length (runes t)) \<le> width c \<and>
           wordAt c2 (runes t) x0 (row c2)"
  using assms
proof (induction before arbitrary: c)
  case Nil
  then have t: "10 \<notin> set (runes t)" "int (length (runes t)) \<le> width c - lmargin c"
    by simp_all
  from Nil.prems(1) have w0: "0 \<le> width c" by (simp add: okCursor_def)
  let ?b = "int (length (runes t)) + 1"
  have "(row c + ?b) * width c + (col c + ?b)
          \<le> (row c + steps (t # rest)) * width c + (col c + steps (t # rest))"
    using w0 steps_nonneg [of rest] unfolding steps_Cons by (intro index_mono) simp_all
  with Nil.prems(3) have rg: "(row c + ?b) * width c + (col c + ?b) < 2 ^ 63" by simp
  let ?x0 = "if int (length (runes t)) > width c - col c then lmargin c else col c"
  from appendWord_plain [OF Nil.prems(1) t(1) rg] obtain c2 where
    c2: "appendWord c t = Inr c2" "width c2 = width c" "fg c2 = fg c" "bg c2 = bg c"
      "wordAt c2 (runes t) ?x0 (row c2)"
    by auto
  have "lmargin c \<le> ?x0" using Nil.prems(1) by (simp add: okCursor_def)
  moreover have "?x0 + int (length (runes t)) \<le> width c" using t(2) by auto
  ultimately show ?case using c2 by (intro exI [of _ c] exI [of _ c2] exI [of _ ?x0]) simp
next
  case (Cons b before)
  let ?b = "int (length (runes b)) + 1"
  let ?s = "steps (before @ t # rest)"
  from Cons.prems(1) have w0: "0 \<le> width c" by (simp add: okCursor_def)
  have s: "steps ((b # before) @ t # rest) = ?b + ?s" by (simp add: steps_Cons)
  have "(row c + ?b) * width c + (col c + ?b)
          \<le> (row c + (?b + ?s)) * width c + (col c + (?b + ?s))"
    using w0 steps_nonneg [of "before @ t # rest"] by (intro index_mono) simp_all
  with Cons.prems(3) have "(row c + ?b) * width c + (col c + ?b) < 2 ^ 63"
    unfolding s by simp
  from appendWord_range [OF Cons.prems(1) this] obtain c' where
    c': "appendWord c b = Inr c'" "okCursor c'" "width c' = width c"
      "lmargin c' = lmargin c" "fg c' = fg c" "bg c' = bg c"
      "row c' \<le> row c + ?b" "col c' \<le> col c + ?b"
    by blast
  have h2: "\<forall>u \<in> set (before @ t # rest).
           10 \<notin> set (runes u) \<and> int (length (runes u)) \<le> width c' - lmargin c'"
    using Cons.prems(2) c'(3,4) by simp
  have "(row c' + ?s) * width c + (col c' + ?s)
          \<le> (row c + (?b + ?s)) * width c + (col c + (?b + ?s))"
    using w0 c'(7,8) by (intro index_mono) simp_all
  with Cons.prems(3) have h3: "(row c' + ?s) * width c' + (col c' + ?s) < 2 ^ 63"
    unfolding s c'(3) by simp
  from Cons.IH [OF c'(2) h2 h3] c' show ?case by simp
qed

lemma okCursor_snapToMargin:
  "0 \<le> width c \<Longrightarrow> 0 \<le> lmargin c \<Longrightarrow> 0 \<le> row c \<Longrightarrow> okCursor (snapToMargin c)"
  by (simp add: okCursor_def snapToMargin_def)

lemma snapToMargin_frame:
  "width (snapToMargin c) = width c" "lmargin (snapToMargin c) = lmargin c"
  "fg (snapToMargin c) = fg c" "bg (snapToMargin c) = bg c" "row (snapToMargin c) = row c"
  "col (snapToMargin c) = max (col c) (lmargin c)" "cells (snapToMargin c) = cells c"
  by (simp_all add: snapToMargin_def)

lemma inRange_snapToMargin:
  "inRange c ts \<Longrightarrow>
   (row (snapToMargin c) + steps ts) * width (snapToMargin c)
     + (col (snapToMargin c) + steps ts) < 2 ^ 63"
  by (simp add: inRange_def snapToMargin_frame)

lemma DecodeRune_ascii:
  "(of_char c :: nat) < 128 \<Longrightarrow> DecodeRune (c # s) = (of_char c, 1)"
  by simp

lemma runes_ascii:
  "\<forall>c \<in> set s. (of_char c :: nat) < 128 \<Longrightarrow> runes s = map of_char s"
proof (induction s)
  case Nil
  show ?case by (simp add: runes.simps)
next
  case (Cons c s)
  then have "runes (c # s) = of_char c # runes s"
    by (subst runes.simps) (simp add: DecodeRune_ascii)
  with Cons show ?case by simp
qed

lemma findSpace_no_space:
  "\<forall>c \<in> set data. (of_char c :: nat) < 128 \<and> (of_char c :: nat) \<noteq> 32 \<Longrightarrow>
   findSpace data i = None"
proof (induction data i rule: findSpace.induct)
  case (1 data i)
  show ?case
  proof (cases "i < length data")
    case True
    then have d: "drop i data = data ! i # drop (Suc i) data"
      by (simp add: Cons_nth_drop_Suc)
    from True "1.prems" have a: "(of_char (data ! i) :: nat) < 128" "(of_char (data ! i) :: nat) \<noteq> 32"
      by simp_all
    have dr: "DecodeRune (drop i data) = (of_char (data ! i), 1)"
      unfolding d by (rule DecodeRune_ascii [OF a(1)])
    from "1.IH" [OF True dr [symmetric] a(2) "1.prems"]
    have "findSpace data (i + 1) = None" .
    with True dr a(2) show ?thesis by (subst findSpace.simps) simp
  next
    case False
    then show ?thesis by (subst findSpace.simps) simp
  qed
qed

lemma skipSpaces_no_space:
  assumes "data \<noteq> []" and "(of_char (hd data) :: nat) < 128" and "(of_char (hd data) :: nat) \<noteq> 32"
  shows "skipSpaces data 0 = 0"
proof -
  obtain c s where d: "data = c # s" using assms(1) by (cases data) auto
  with assms show ?thesis by (subst skipSpaces.simps) (simp add: DecodeRune_ascii)
qed

lemma scanWords_word:
  assumes "data \<noteq> []"
    and "\<forall>c \<in> set data. (of_char c :: nat) < 128 \<and> (of_char c :: nat) \<noteq> 32"
  shows "scanWords data True = (length data, Some data)"
proof -
  have "skipSpaces data 0 = 0"
    using assms by (intro skipSpaces_no_space) (cases data; simp)+
  with assms(1) findSpace_no_space [OF assms(2), of 0] show ?thesis
    by (simp add: scanWords_def)
qed

lemma Scan_Nil: "Scan [] = []"
  by (subst Scan.simps) (simp add: scanWords_def skipSpaces.simps findSpace.simps)

lemma Scan_word:
  assumes "data \<noteq> []"
    and "\<forall>c \<in> set data. (of_char c :: nat) < 128 \<and> (of_char c :: nat) \<noteq> 32"
  shows "Scan data = (if MaxScanTokenSize \<le> length data then [] else [data])"
  by (subst Scan.simps) (simp add: scanWords_word [OF assms] Scan_Nil)

lemma findSpace_word_space:
  assumes "\<forall>c \<in> set w. (of_char c :: nat) < 128 \<and> (of_char c :: nat) \<noteq> 32"
  shows "i \<le> length w \<Longrightarrow> findSpace (w @ CHR '' '' # rest) i = Some (length w, 1)"
proof (induction "length w - i" arbitrary: i)
  case 0
  then have i: "i = length w" by simp
  show ?case unfolding i by (subst findSpace.simps) simp
next
  case (Suc n)
  then have lt: "i < length w" by simp
  let ?d = "w @ CHR '' '' # rest"
  have d: "drop i ?d = w ! i # drop (Suc i) ?d"
    using lt by (simp add: Cons_nth_drop_Suc [symmetric] nth_append)
  from lt assms have a: "(of_char (w ! i) :: nat) < 128" "(of_char (w ! i) :: nat) \<noteq> 32"
    by simp_all
  have dr: "DecodeRune (drop i ?d) = (of_char (w ! i), 1)"
    unfolding d by (rule DecodeRune_ascii [OF a(1)])
  from Suc have "findSpace ?d (i + 1) = Some (length w, 1)" by simp
  with lt dr a(2) show ?case by (subst findSpace.simps) simp
qed

lemma Scan_word_space:
  assumes "w \<noteq> []"
    and "\<forall>c \<in> set w. (of_char c :: nat) < 128 \<and> (of_char c :: nat) \<noteq> 32"
  shows "Scan (w @ CHR '' '' # rest) =
           (if MaxScanTokenSize \<le> length w then [] else w # Scan rest)"
proof -
  have "skipSpaces (w @ CHR '' '' # rest) 0 = 0"
    using assms by (intro skipSpaces_no_space) (cases w; simp)+
  with findSpace_word_space [OF assms(2), of 0 rest] show ?thesis
    by (subst Scan.simps) (simp add: scanWords_def)
qed

text \<open>
  A word of 64 KiB is not delivered by the scanner: nothing of it is written.
\<close>

lemma appendText_token_too_long:
  "appendText c (replicate 65536 CHR ''a'') = Inr (snapToMargin c)"
proof -
  have "Scan (replicate 65536 CHR ''a'') = []"
    by (subst Scan_word) (simp_all add: MaxScanTokenSize_def)
  then show ?thesis by (simp add: appendText_def)
qed

text \<open>
  Claim C3, amended. On a buffer whose margin and row are not negative, let every token
  that the scanner delivers from the string have no newline rune and at most
  \<open>width - lmargin\<close> runes (at most \<open>width\<close> runes for the margin 0 of the documents of
  \<^verbatim>\<open>parseText\<close>), and let the tokens be in the range of the buffer (\<open>inRange\<close>: no
  cell index that the cursor can reach with them leaves Go's \<^verbatim>\<open>int\<close>). Then
  \<^verbatim>\<open>appendText\<close> does not panic, and every token \<open>t\<close> of the string is placed in one
  row: when its turn in the loop is over, its runes are in the row of the cursor, in
  consecutive columns from some \<open>x0\<close> on, between the margin and the width.
\<close>

theorem words_are_not_split:
  assumes "0 \<le> lmargin c" and "0 \<le> row c"
    and "\<forall>u \<in> set (Scan str).
           10 \<notin> set (runes u) \<and> int (length (runes u)) \<le> width c - lmargin c"
    and "inRange c (Scan str)"
    and "Scan str = before @ t # rest"
  shows "\<exists>c1 c2 x0. appendWords (snapToMargin c) before = Inr c1 \<and>
           appendWord c1 t = Inr c2 \<and> appendText c str = appendWords c2 rest \<and>
           width c2 = width c \<and> fg c2 = fg c \<and> bg c2 = bg c \<and>
           lmargin c \<le> x0 \<and> x0 + int (length (runes t)) \<le> width c \<and>
           wordAt c2 (runes t) x0 (row c2)"
proof -
  have "int (length (runes t)) \<le> width c - lmargin c" using assms(3,5) by simp
  with assms(1) have "0 \<le> width c" by simp
  from okCursor_snapToMargin [OF this assms(1,2)] have ok: "okCursor (snapToMargin c)" .
  have h2: "\<forall>u \<in> set (before @ t # rest). 10 \<notin> set (runes u) \<and>
          int (length (runes u)) \<le> width (snapToMargin c) - lmargin (snapToMargin c)"
    using assms(3,5) by (simp add: snapToMargin_frame)
  have h3: "(row (snapToMargin c) + steps (before @ t # rest)) * width (snapToMargin c)
     + (col (snapToMargin c) + steps (before @ t # rest)) < 2 ^ 63"
    using inRange_snapToMargin [OF assms(4)] unfolding assms(5) .
  from appendWords_placement [OF ok h2 h3]
  show ?thesis by (simp add: appendText_def assms(5) snapToMargin_frame(1-5))
qed

theorem words_are_not_split_witness:
  "\<exists>c1 c2 x0. appendWords (snapToMargin newDoc) [''Hello''] = Inr c1 \<and>
      appendWord c1 ''world'' = Inr c2 \<and>
      appendText newDoc ''Hello world'' = appendWords c2 [] \<and>
      0 \<le> x0 \<and> x0 + 5 \<le> 80 \<and> wordAt c2 [119, 111, 114, 108, 100] x0 (row c2)"
proof -
  have s: "Scan ''Hello world'' = [''Hello''] @ ''world'' # []"
    by (simp add: Scan.simps scanWords_def skipSpaces.simps findSpace.simps MaxScanTokenSize_def)
  have r: "runes ''Hello'' = [72, 101, 108, 108, 111]" "runes ''world'' = [119, 111, 114, 108, 100]"
    by (simp_all add: runes.simps)
  have h1: "0 \<le> lmargin newDoc" and h2: "0 \<le> row newDoc"
    by (simp_all add: newDoc_def)
  have h3: "\<forall>u \<in> set (Scan ''Hello world'').
      10 \<notin> set (runes u) \<and> int (length (runes u)) \<le> width newDoc - lmargin newDoc"
    by (simp add: s r newDoc_def)
  have h4: "inRange newDoc (Scan ''Hello world'')"
    by (simp add: s r inRange_def steps_def newDoc_def)
  from words_are_not_split [OF h1 h2 h3 h4 s]
  show ?thesis by (simp add: r newDoc_def) blast
qed

text \<open>
  The claim as stated fails for a token with a newline rune: the token \<^verbatim>\<open>a\nb\<close> has
  three runes, and \<open>a\<close> is set in row 0 (index 0), \<open>b\<close> in row 1 (index 80).
\<close>

theorem newline_splits_word_counterexample:
  "Scan [CHR ''a'', CHR 0x0A, CHR ''b''] = [[CHR ''a'', CHR 0x0A, CHR ''b'']] \<and>
   runes [CHR ''a'', CHR 0x0A, CHR ''b''] = [97, 10, 98] \<and>
   appendText newDoc [CHR ''a'', CHR 0x0A, CHR ''b''] =
     Inr (newDoc\<lparr>cells := (replicate 1024 zeroCell)
                             [0 := \<lparr>Ch = 97, Fg = 0, Bg = 0\<rparr>,
                              80 := \<lparr>Ch = 98, Fg = 0, Bg = 0\<rparr>],
                  col := 2, row := 1\<rparr>)"
proof -
  have s: "Scan [CHR ''a'', CHR 0x0A, CHR ''b''] = [[CHR ''a'', CHR 0x0A, CHR ''b'']]"
    by (simp add: Scan.simps scanWords_def skipSpaces.simps findSpace.simps MaxScanTokenSize_def)
  have r: "runes [CHR ''a'', CHR 0x0A, CHR ''b''] = [97, 10, 98]"
    by (simp add: runes.simps)
  show ?thesis
    by (simp add: s r appendText_def appendWord_def snapToMargin_def newDoc_def setCell_def
        wrap64_def store_def grow.simps)
qed

text \<open>
  Without the condition on the range the word is not placed: in a row whose first index
  is beyond \<open>2 ^ 63\<close> the index of \<^verbatim>\<open>setCell\<close> is negative and \<^verbatim>\<open>appendText\<close> panics.
\<close>

lemma appendText_index_wraps:
  "appendText (newDoc\<lparr>row := 115292150460684698\<rparr>) ''a''
     = Inl (IndexOutOfRange (- 9223372036854775776))"
proof -
  have s: "Scan ''a'' = [''a'']"
    by (subst Scan_word) (simp_all add: MaxScanTokenSize_def)
  have r: "runes ''a'' = [97]"
    by (subst runes_ascii) simp_all
  show ?thesis
    by (simp add: s r appendText_def appendWord_def snapToMargin_def newDoc_def setCell_def
        wrap64_def store_def grow.simps)
qed




lemma Scan_long_word_then_b:
  "Scan (replicate 81 CHR ''a'' @ '' b'') = [replicate 81 CHR ''a'', ''b'']"
proof -
  have "Scan ''b'' = [''b'']"
    by (subst Scan_word) (simp_all add: MaxScanTokenSize_def)
  moreover have "Scan (replicate 81 CHR ''a'' @ CHR '' '' # ''b'')
                   = replicate 81 CHR ''a'' # Scan ''b''"
    by (subst Scan_word_space) (simp_all add: MaxScanTokenSize_def)
  ultimately show ?thesis by simp
qed




text \<open>
  The runes beyond the width: \<^verbatim>\<open>setCell\<close> does not bound the column, so the 81st rune
  of a token of 81 letters is set at the index 160, which is column 0 of the row below,
  and the next token, which starts in that row, is written over it.
\<close>

lemma overflow_rune_overwritten:
  "\<exists>c2 d. appendWord (snapToMargin newDoc) (replicate 81 CHR ''a'') = Inr c2 \<and>
      cells c2 ! 160 = \<lparr>Ch = 97, Fg = 0, Bg = 0\<rparr> \<and>
      appendText newDoc (replicate 81 CHR ''a'' @ '' b'') = Inr d \<and>
      cells d ! 160 = \<lparr>Ch = 98, Fg = 0, Bg = 0\<rparr>"
proof -
  let ?t = "replicate 81 CHR ''a''"
  let ?s = "snapToMargin newDoc"
  have r: "runes ?t = replicate 81 97" "runes ''b'' = [98]"
    by (subst runes_ascii; simp)+
  have ok: "okCursor ?s" by (simp add: okCursor_def snapToMargin_def newDoc_def)
  have nl: "10 \<notin> set (runes ?t)" by (simp add: r)
  have rg: "(row ?s + (int (length (runes ?t)) + 1)) * width ?s
              + (col ?s + (int (length (runes ?t)) + 1)) < 2 ^ 63"
    by (simp add: r snapToMargin_def newDoc_def)
  from appendWord_plain [OF ok nl rg] obtain c2 where
    c2: "appendWord ?s ?t = Inr c2" "width c2 = 80" "lmargin c2 = 0" "fg c2 = 0" "bg c2 = 0"
      "row c2 = 1" "col c2 = 82" "wordAt c2 (replicate 81 97) 0 1"
    by (auto simp: r snapToMargin_def newDoc_def)
  from c2(8) have "\<forall>k < 81. cells c2 ! nat (80 + int k) = \<lparr>Ch = 97, Fg = 0, Bg = 0\<rparr>"
    by (simp add: wordAt_def c2)
  from this [rule_format, of 80] have a: "cells c2 ! 160 = \<lparr>Ch = 97, Fg = 0, Bg = 0\<rparr>"
    by simp
  let ?c = "c2\<lparr>row := 2, col := 0\<rparr>"
  have nl': "10 \<notin> set [98::nat]" by simp
  have i0: "0 \<le> row ?c * width ?c + col ?c" by (simp add: c2)
  have i1: "row ?c * width ?c + col ?c + int (length [98::nat]) \<le> 2 ^ 63" by (simp add: c2)
  from putRunes_plain [OF nl' i0 i1] obtain cs where
    cs: "putRunes ?c [98] = Inr (?c\<lparr>cells := cs, col := col ?c + int (length [98::nat])\<rparr>)"
      "\<forall>k < length [98::nat]. nat (row ?c * width ?c + col ?c) + k < length cs \<and>
         cs ! (nat (row ?c * width ?c + col ?c) + k) = \<lparr>Ch = [98] ! k, Fg = fg ?c, Bg = bg ?c\<rparr>"
    by blast
  have b: "appendWord c2 ''b'' = Inr (c2\<lparr>row := 2, cells := cs, col := 2\<rparr>)"
    using cs(1) unfolding appendWord_def r by (simp add: c2)
  have "appendText newDoc (?t @ '' b'') = Inr (c2\<lparr>row := 2, cells := cs, col := 2\<rparr>)"
    using c2(1) b by (simp add: appendText_def Scan_long_word_then_b)
  moreover from cs(2) have "cs ! 160 = \<lparr>Ch = 98, Fg = 0, Bg = 0\<rparr>" by (simp add: c2)
  ultimately show ?thesis using c2(1) a by simp
qed
section \<open>Properties of the parser\<close>

subsection \<open>The error token\<close>

lemma parse_parseTokens:
  "parse X p tokens e =
     (case parseTokens X p tokens of
        Inl x \<Rightarrow> Inl x
      | Inr p' \<Rightarrow> Inr (p', if e = EOF then None else Some e))"
  by (induction tokens arbitrary: p) (auto split: sum.splits)

text \<open>
  Claim C1. When the tokenizer reports the end of the stream the loop of \<^verbatim>\<open>parse\<close>
  returns \<^verbatim>\<open>nil\<close>, and when it reports any other error the loop returns that error.
  For every run of the tokenizer, unless a handler panics on a token before the error,
  \<^verbatim>\<open>parse\<close> ends in the state that the tokens before the error built, and
  \<^verbatim>\<open>parseText\<close> returns the document of that state together with the error (\<^verbatim>\<open>nil\<close> for
  the end of the stream).
\<close>

theorem parse_stops_at_error_token:
  "parse X p [] EOF = Inr (p, None) \<and>
   parse X p [] (OtherError msg) = Inr (p, Some (OtherError msg)) \<and>
   parse X p tokens e =
     (case parseTokens X p tokens of
        Inl x \<Rightarrow> Inl x
      | Inr p' \<Rightarrow> Inr (p', if e = EOF then None else Some e)) \<and>
   parseText X tokens e its =
     (case parseTokens X (newParser its) tokens of
        Inl x \<Rightarrow> Inl x
      | Inr p' \<Rightarrow> Inr (doc p', if e = EOF then None else Some e))"
  by (simp add: parse_parseTokens parseText_def newParser_def split: sum.splits)


theorem parse_stops_at_error_token_witness:
  "parseText sampleExternals [\<lparr>Type = StartTagToken, DataAtom = atom_P, Data = ''p'', Attr = []\<rparr>]
      (OtherError ''unexpected EOF'') [] =
     Inr (\<lparr>cells = [], width = 80, lmargin = 0, col = 2, row = 0, fg = 0, bg = 0\<rparr>,
          Some (OtherError ''unexpected EOF''))"
  using parse_stops_at_error_token [of sampleExternals "newParser []" "''x''"
     "[\<lparr>Type = StartTagToken, DataAtom = atom_P, Data = ''p'', Attr = []\<rparr>]" "OtherError ''unexpected EOF''" "[]"]
  by (simp add: newParser_def newDoc_def parseToken_def handleStartTag_def)

subsection \<open>Text tokens and table ends\<close>

lemma update_last: "xs \<noteq> [] \<Longrightarrow> xs[length xs - Suc 0 := x] = butlast xs @ [x]"
  by (induction xs rule: rev_induct) simp_all

lemma nth_last: "xs \<noteq> [] \<Longrightarrow> xs ! (length xs - Suc 0) = last xs"
  by (simp add: last_conv_nth)

lemma getTableCell_focused:
  "getTableCell p =
     (if focusedCell (tableStack p)
      then Some (length (tableStack p) - 1, length (last (tableStack p)) - 1,
                 length (last (last (tableStack p))) - 1)
      else None)"
  by (simp add: getTableCell_def focusedCell_def nth_last Let_def)

lemma parser_appendText_focused:
  "focusedCell (tableStack p) \<Longrightarrow>
   parser_appendText p str raw =
     Inr (p\<lparr>tableStack := appendToFocused (tableStack p) (TrimSpace str)\<rparr>)"
  by (simp add: parser_appendText_def getTableCell_focused appendToFocused_def focusedCell_def
      nth_last update_last Let_def)

lemma parser_appendText_unfocused:
  "\<not> focusedCell (tableStack p) \<Longrightarrow>
   parser_appendText p str raw =
     (case (if raw then appendRaw (doc p) str else appendText (doc p) str) of
        Inl e \<Rightarrow> Inl e
      | Inr d \<Rightarrow> Inr (p\<lparr>doc := d\<rparr>))"
  by (simp add: parser_appendText_def getTableCell_focused)

text \<open>
  Claim C2. A text token under a style tag (the top of the tag stack) leaves the parser
  as it is. Otherwise the style is recomputed from the whole tag stack; then, if a
  focused table cell exists, the trimmed text is concatenated onto that cell and the
  cells of the grid are unchanged, and if none exists the text is appended to the
  document by the word-wrapping \<^verbatim>\<open>appendText\<close>.
\<close>

theorem handleText_routes_text:
  "(tagStack p \<noteq> [] \<and> last (tagStack p) = atom_Style \<longrightarrow> handleText p token = Inr p) \<and>
   (\<not> (tagStack p \<noteq> [] \<and> last (tagStack p) = atom_Style) \<and> focusedCell (tableStack p) \<longrightarrow>
      handleText p token =
        Inr (p\<lparr>doc := style (doc p) (tagStack p),
               tableStack := appendToFocused (tableStack p) (TrimSpace (Data token))\<rparr>) \<and>
      cells (style (doc p) (tagStack p)) = cells (doc p)) \<and>
   (\<not> (tagStack p \<noteq> [] \<and> last (tagStack p) = atom_Style) \<and> \<not> focusedCell (tableStack p) \<longrightarrow>
      handleText p token =
        (case appendText (style (doc p) (tagStack p)) (Data token) of
           Inl e \<Rightarrow> Inl e
         | Inr d \<Rightarrow> Inr (p\<lparr>doc := d\<rparr>)))"
proof (intro conjI impI)
  assume "tagStack p \<noteq> [] \<and> last (tagStack p) = atom_Style"
  then show "handleText p token = Inr p"
    by (simp add: handleText_def nth_last)
next
  assume a: "\<not> (tagStack p \<noteq> [] \<and> last (tagStack p) = atom_Style) \<and> focusedCell (tableStack p)"
  then have "\<not> (length (tagStack p) > 0 \<and> tagStack p ! (length (tagStack p) - 1) = atom_Style)"
    by (auto simp: nth_last)
  with a show "handleText p token =
        Inr (p\<lparr>doc := style (doc p) (tagStack p),
               tableStack := appendToFocused (tableStack p) (TrimSpace (Data token))\<rparr>)"
    by (auto simp: handleText_def parser_appendText_focused)
next
  show "cells (style (doc p) (tagStack p)) = cells (doc p)"
    by (simp add: style_def)
next
  assume a: "\<not> (tagStack p \<noteq> [] \<and> last (tagStack p) = atom_Style) \<and> \<not> focusedCell (tableStack p)"
  then have "\<not> (length (tagStack p) > 0 \<and> tagStack p ! (length (tagStack p) - 1) = atom_Style)"
    by (auto simp: nth_last)
  with a show "handleText p token =
        (case appendText (style (doc p) (tagStack p)) (Data token) of
           Inl e \<Rightarrow> Inl e
         | Inr d \<Rightarrow> Inr (p\<lparr>doc := d\<rparr>))"
    by (auto simp: handleText_def parser_appendText_unfocused split: sum.splits)
qed

theorem handleText_routes_text_witness:
  "handleText ((newParser [])\<lparr>tagStack := [atom_P, atom_Style]\<rparr>)
      \<lparr>Type = TextToken, DataAtom = atom_Other 0, Data = ''p { color: red }'', Attr = []\<rparr> =
     Inr ((newParser [])\<lparr>tagStack := [atom_P, atom_Style]\<rparr>) \<and>
   handleText ((newParser [])\<lparr>tagStack := [atom_Table, atom_Tr, atom_Td, atom_B],
                               tableStack := [[[''a'', ''b'']]]\<rparr>)
      \<lparr>Type = TextToken, DataAtom = atom_Other 0, Data = '' c  '', Attr = []\<rparr> =
     Inr ((newParser [])\<lparr>tagStack := [atom_Table, atom_Tr, atom_Td, atom_B],
                           tableStack := [[[''a'', ''bc'']]],
                           doc := newDoc\<lparr>fg := AttrBold\<rparr>\<rparr>) \<and>
   handleText ((newParser [])\<lparr>tagStack := [atom_B]\<rparr>)
      \<lparr>Type = TextToken, DataAtom = atom_Other 0, Data = ''hi'', Attr = []\<rparr> =
     Inr ((newParser [])\<lparr>tagStack := [atom_B],
            doc := newDoc\<lparr>cells := (replicate 1024 zeroCell)
                                 [0 := \<lparr>Ch = 104, Fg = AttrBold, Bg = 0\<rparr>,
                                  1 := \<lparr>Ch = 105, Fg = AttrBold, Bg = 0\<rparr>],
                          col := 3, fg := AttrBold\<rparr>\<rparr>)"
proof -
  have s: "Scan ''hi'' = [''hi'']"
    by (simp add: Scan.simps scanWords_def skipSpaces.simps findSpace.simps MaxScanTokenSize_def)
  have r: "runes ''hi'' = [104, 105]"
    by (simp add: runes.simps)
  have t: "TrimSpace '' c  '' = ''c''"
    by (simp add: TrimSpace_def sequences.simps isSpace_def)
  show ?thesis
    using handleText_routes_text [of "(newParser [])\<lparr>tagStack := [atom_P, atom_Style]\<rparr>"
        "\<lparr>Type = TextToken, DataAtom = atom_Other 0, Data = ''p { color: red }'', Attr = []\<rparr>"]
      handleText_routes_text [of "(newParser [])\<lparr>tagStack := [atom_Table, atom_Tr, atom_Td, atom_B],
                               tableStack := [[[''a'', ''b'']]]\<rparr>"
        "\<lparr>Type = TextToken, DataAtom = atom_Other 0, Data = '' c  '', Attr = []\<rparr>"]
      handleText_routes_text [of "(newParser [])\<lparr>tagStack := [atom_B]\<rparr>"
        "\<lparr>Type = TextToken, DataAtom = atom_Other 0, Data = ''hi'', Attr = []\<rparr>"]
    by (simp add: newParser_def newDoc_def focusedCell_def appendToFocused_def style_def t s r
        appendText_def appendWord_def snapToMargin_def setCell_def wrap64_def store_def grow.simps
        ColorDefault_def)
qed

lemma sequences_nl: "sequences [CHR 0x0A] = [(10, [CHR 0x0A])]"
  by (simp add: sequences.simps)

lemma TrimSpace_nl: "TrimSpace [CHR 0x0A] = []"
  by (simp add: TrimSpace_def sequences_nl isSpace_def)

text \<open>
  Claim C7, amended. At a table end with a non-empty table stack, the top table is
  popped and its rows are given to the table writer with border and row line set. A
  newline and then the rendered block go through the parser's \<^verbatim>\<open>appendText\<close> in raw
  mode: when the rest of the table stack has a focused cell (the table was nested in a
  cell of another table), the trimmed block is concatenated onto that cell and the
  document is unchanged; otherwise the newline and the block are appended raw to the
  document.
\<close>

theorem handleEndTag_table:
  assumes "DataAtom token = atom_Table" and "tableStack p = ts @ [rows]"
  shows "handleEndTag X p token =
     (if focusedCell ts
      then Inr (p\<lparr>tableStack := appendToFocused ts (TrimSpace (TableRender X rows True True))\<rparr>)
      else case appendRaw (doc p) [CHR 0x0A] of
             Inl e \<Rightarrow> Inl e
           | Inr d \<Rightarrow>
               (case appendRaw d (TableRender X rows True True) of
                  Inl e \<Rightarrow> Inl e
                | Inr d' \<Rightarrow> Inr (p\<lparr>tableStack := ts, doc := d'\<rparr>)))"
proof (cases "focusedCell ts")
  case True
  have f2: "focusedCell (appendToFocused ts [])"
    using True by (simp add: focusedCell_def appendToFocused_def)
  have "appendToFocused (appendToFocused ts []) s = appendToFocused ts s" for s
    by (simp add: appendToFocused_def)
  with True f2 assms show ?thesis
    by (simp add: handleEndTag_def parser_appendText_focused TrimSpace_nl)
next
  case False
  with assms show ?thesis
    by (simp add: handleEndTag_def parser_appendText_unfocused split: sum.splits)
qed

theorem handleEndTag_table_witness:
  "handleEndTag sampleExternals
      ((newParser [])\<lparr>tagStack := [atom_Table, atom_Tr, atom_Td],
                       tableStack := [[[''a'']]]\<rparr>)
      \<lparr>Type = EndTagToken, DataAtom = atom_Table, Data = ''table'', Attr = []\<rparr> =
   Inr ((newParser [])\<lparr>tagStack := [atom_Table, atom_Tr, atom_Td],
          doc := newDoc\<lparr>cells := (replicate 1024 zeroCell)
                               [80 := \<lparr>Ch = 124, Fg = 0, Bg = 0\<rparr>,
                                81 := \<lparr>Ch = 32, Fg = 0, Bg = 0\<rparr>,
                                82 := \<lparr>Ch = 97, Fg = 0, Bg = 0\<rparr>,
                                83 := \<lparr>Ch = 32, Fg = 0, Bg = 0\<rparr>,
                                84 := \<lparr>Ch = 124, Fg = 0, Bg = 0\<rparr>],
                        row := 2\<rparr>\<rparr>)"
proof -
  let ?p = "(newParser [])\<lparr>tagStack := [atom_Table, atom_Tr, atom_Td],
                           tableStack := [[[''a'']]]\<rparr>"
  let ?token = "\<lparr>Type = EndTagToken, DataAtom = atom_Table, Data = ''table'', Attr = []\<rparr>"
  have h1: "DataAtom ?token = atom_Table" by simp
  have h2: "tableStack ?p = [] @ [[[''a'']]]" by (simp add: newParser_def)
  have r1: "runes [CHR 0x0A] = [10]"
    by (simp add: runes.simps)
  have r2: "runes [CHR ''|'', CHR '' '', CHR ''a'', CHR '' '', CHR ''|'', CHR 0x0A]
              = [124, 32, 97, 32, 124, 10]"
    by (simp add: runes.simps)
  show ?thesis
    using handleEndTag_table [OF h1 h2, of sampleExternals]
    by (simp add: focusedCell_def sampleExternals_def newParser_def newDoc_def appendRaw_def
        snapToMargin_def r1 r2 setCell_def wrap64_def store_def grow.simps)
qed

lemma ts_x: "TrimSpace ''x'' = ''x''" and ts_y: "TrimSpace ''y'' = ''y''"
  and ts_r: "TrimSpace [CHR ''|'', CHR '' '', CHR ''y'', CHR '' '', CHR ''|'', CHR 0x0A] = ''| y |''"
  by (simp_all add: TrimSpace_def sequences.simps isSpace_def)

text \<open>
  The claim as stated fails for a table nested in a cell: after the tokens of
  \<^verbatim>\<open><table><tr><td>x<table><tr><td>y</td></tr></table>\<close> the document is still empty,
  and the block rendered for the inner table is in the cell of the outer one.
\<close>

theorem nested_table_end_counterexample:
  "parse sampleExternals (newParser []) nestedTableTokens EOF =
     Inr (\<lparr>tagStack = [atom_Table, atom_Tr, atom_Td],
           tableStack = [[[''x| y |'']]],
           doc = newDoc, items = []\<rparr>, None)"
  by (simp add: nestedTableTokens_def newParser_def newDoc_def parseToken_def handleStartTag_def
      handleText_def handleEndTag_def parser_appendText_def getTableCell_def style_def
      sampleExternals_def ts_x ts_y ts_r TrimSpace_nl ColorDefault_def)

subsection \<open>Orphan tokens and failing images\<close>

text \<open>
  Claim C10. The loop of \<^verbatim>\<open>parse\<close> panics on an index \<open>-1\<close>, whatever follows in the
  stream: at an end tag with an empty tag stack (the slice \<^verbatim>\<open>tagStack[:-1]\<close>; for a table
  end with an empty table stack the index \<^verbatim>\<open>tableStack[-1]\<close> comes first), at a row start
  with an empty table stack, and at a cell start with an empty table stack or with a top
  table that has no row.
\<close>

theorem parse_panics_on_orphan_tokens:
  "(Type token = EndTagToken \<and> DataAtom token \<noteq> atom_Table \<and> tagStack p = [] \<longrightarrow>
      parse X p (token # rest) e = Inl (SliceBoundsOutOfRange (- 1))) \<and>
   (Type token = EndTagToken \<and> DataAtom token = atom_Table \<and> tableStack p = [] \<longrightarrow>
      parse X p (token # rest) e = Inl (IndexOutOfRange (- 1))) \<and>
   ((Type token = StartTagToken \<or> Type token = SelfClosingTagToken) \<and>
    DataAtom token = atom_Tr \<and> tableStack p = [] \<longrightarrow>
      parse X p (token # rest) e = Inl (IndexOutOfRange (- 1))) \<and>
   ((Type token = StartTagToken \<or> Type token = SelfClosingTagToken) \<and>
    DataAtom token = atom_Td \<and> (tableStack p = [] \<or> last (tableStack p) = []) \<longrightarrow>
      parse X p (token # rest) e = Inl (IndexOutOfRange (- 1)))"
proof (intro conjI impI)
  assume "Type token = EndTagToken \<and> DataAtom token \<noteq> atom_Table \<and> tagStack p = []"
  then show "parse X p (token # rest) e = Inl (SliceBoundsOutOfRange (- 1))"
    by (cases "DataAtom token") (simp_all add: parseToken_def handleEndTag_def)
next
  assume "Type token = EndTagToken \<and> DataAtom token = atom_Table \<and> tableStack p = []"
  then show "parse X p (token # rest) e = Inl (IndexOutOfRange (- 1))"
    by (simp add: parseToken_def handleEndTag_def)
next
  assume "(Type token = StartTagToken \<or> Type token = SelfClosingTagToken) \<and>
    DataAtom token = atom_Tr \<and> tableStack p = []"
  then show "parse X p (token # rest) e = Inl (IndexOutOfRange (- 1))"
    by (auto simp: parseToken_def handleStartTag_def)
next
  assume a: "(Type token = StartTagToken \<or> Type token = SelfClosingTagToken) \<and>
    DataAtom token = atom_Td \<and> (tableStack p = [] \<or> last (tableStack p) = [])"
  show "parse X p (token # rest) e = Inl (IndexOutOfRange (- 1))"
  proof (cases "tableStack p = []")
    case True
    with a show ?thesis by (auto simp: parseToken_def handleStartTag_def)
  next
    case False
    with a have "last (tableStack p) = []" by simp
    with False have "tableStack p ! nat (int (length (tableStack p)) - 1) = []"
      by (simp add: last_conv_nth nat_diff_distrib')
    with a False show ?thesis
      by (auto simp: parseToken_def handleStartTag_def Let_def)
  qed
qed

theorem parse_panics_on_orphan_tokens_witness:
  "parseText sampleExternals
     [\<lparr>Type = EndTagToken, DataAtom = atom_B, Data = ''b'', Attr = []\<rparr>] EOF [] =
     Inl (SliceBoundsOutOfRange (- 1)) \<and>
   parseText sampleExternals
     [\<lparr>Type = StartTagToken, DataAtom = atom_Tr, Data = ''tr'', Attr = []\<rparr>] EOF [] =
     Inl (IndexOutOfRange (- 1)) \<and>
   parseText sampleExternals
     [\<lparr>Type = StartTagToken, DataAtom = atom_Table, Data = ''table'', Attr = []\<rparr>,
      \<lparr>Type = StartTagToken, DataAtom = atom_Td, Data = ''td'', Attr = []\<rparr>] EOF [] =
     Inl (IndexOutOfRange (- 1))"
proof -
  have t: "parseToken sampleExternals (newParser [])
             \<lparr>Type = StartTagToken, DataAtom = atom_Table, Data = ''table'', Attr = []\<rparr> =
           Inr ((newParser [])\<lparr>tagStack := [atom_Table], tableStack := [[]]\<rparr>)"
    by (simp add: parseToken_def handleStartTag_def newParser_def)
  show ?thesis
    using parse_panics_on_orphan_tokens [of
        "\<lparr>Type = EndTagToken, DataAtom = atom_B, Data = ''b'', Attr = []\<rparr>"
        "newParser []" sampleExternals "[]" EOF]
      parse_panics_on_orphan_tokens [of
        "\<lparr>Type = StartTagToken, DataAtom = atom_Tr, Data = ''tr'', Attr = []\<rparr>"
        "newParser []" sampleExternals "[]" EOF]
      parse_panics_on_orphan_tokens [of
        "\<lparr>Type = StartTagToken, DataAtom = atom_Td, Data = ''td'', Attr = []\<rparr>"
        "(newParser [])\<lparr>tagStack := [atom_Table], tableStack := [[]]\<rparr>" sampleExternals "[]" EOF]
    by (simp add: parseText_def t) (simp add: newParser_def)
qed

lemma runes_Nil: "runes [] = []"
  by (simp add: runes.simps)

text \<open>
  Claim C9. When opening an image resource fails, or decoding it fails,
  \<^verbatim>\<open>imageToText\<close> returns the empty string. The \<^verbatim>\<open>src\<close> attribute that names such a
  resource is handled without a panic and leaves the cells, the row and the table stack
  as they are, and the loop of \<^verbatim>\<open>parse\<close> goes on with the next token.
\<close>

theorem image_failure_renders_nothing:
  assumes "isl (Open item) \<or> (\<exists>r. Open item = Inr r \<and> isl (Decode X r))"
    and "Lookup (Key a) = atom_Src"
    and "find (\<lambda>item. HREF item = Val a) (items p) = Some item"
    and "Type token = StartTagToken \<or> Type token = SelfClosingTagToken"
    and "DataAtom token = atom_Img" and "Attr token = [a]"
  shows "imageToText X item = Inr [] \<and>
         (\<exists>p'. imgAttr X p a = Inr p' \<and> cells (doc p') = cells (doc p) \<and>
               row (doc p') = row (doc p) \<and> tableStack p' = tableStack p) \<and>
         (\<exists>p'. parseToken X p token = Inr p' \<and> cells (doc p') = cells (doc p) \<and>
               row (doc p') = row (doc p) \<and> tableStack p' = tableStack p \<and>
               parse X p (token # rest) e = parse X p' rest e)"
proof -
  have i: "imageToText X item = Inr []"
    using assms(1) by (auto simp: imageToText_def split: sum.splits)
  have raw: "parser_appendText q [] True = Inr (q\<lparr>doc := snapToMargin (doc q)\<rparr>)"
    if "\<not> focusedCell (tableStack q)" for q
    using that by (simp add: parser_appendText_unfocused appendRaw_def runes_Nil)
  have attr: "imgAttr X q a =
      Inr (if focusedCell (tableStack q) then q else q\<lparr>doc := snapToMargin (doc q)\<rparr>)"
    if "items q = items p" for q
    using assms(2,3) i that by (simp add: imgAttr_def getTableCell_focused raw)
  have sn: "cells (snapToMargin d) = cells d \<and> row (snapToMargin d) = row d" for d
    by (simp add: snapToMargin_def)
  have 1: "\<exists>p'. imgAttr X p a = Inr p' \<and> cells (doc p') = cells (doc p) \<and>
               row (doc p') = row (doc p) \<and> tableStack p' = tableStack p"
    using attr [of p] sn by simp
  let ?q = "if Type token = StartTagToken then p\<lparr>tagStack := tagStack p @ [atom_Img]\<rparr> else p"
  let ?p' = "if focusedCell (tableStack ?q) then ?q else ?q\<lparr>doc := snapToMargin (doc ?q)\<rparr>"
  have pt: "parseToken X p token = Inr ?p'"
    using assms(4,5,6) attr [of ?q]
    by (auto simp: parseToken_def handleStartTag_def)
  have 2: "\<exists>p'. parseToken X p token = Inr p' \<and> cells (doc p') = cells (doc p) \<and>
               row (doc p') = row (doc p) \<and> tableStack p' = tableStack p \<and>
               parse X p (token # rest) e = parse X p' rest e"
    using pt sn by (intro exI [of _ ?p']) auto
  from i 1 2 show ?thesis by blast
qed

theorem image_failure_renders_nothing_witness:
  "parseText sampleExternals
     [\<lparr>Type = SelfClosingTagToken, DataAtom = atom_Img, Data = ''img'',
       Attr = [\<lparr>Key = ''src'', Val = ''cover.png''\<rparr>]\<rparr>] EOF
     [\<lparr>HREF = ''cover.png'', Open = Inl (OtherError ''file does not exist'')\<rparr>] =
     Inr (newDoc, None) \<and>
   imageToText sampleExternals \<lparr>HREF = ''cover.png'', Open = Inr ''not an image''\<rparr> = Inr []"
proof -
  let ?a = "\<lparr>Key = ''src'', Val = ''cover.png''\<rparr>"
  let ?token = "\<lparr>Type = SelfClosingTagToken, DataAtom = atom_Img, Data = ''img'', Attr = [?a]\<rparr>"
  let ?item = "\<lparr>HREF = ''cover.png'', Open = Inl (OtherError ''file does not exist'')\<rparr>"
  let ?item2 = "\<lparr>HREF = ''cover.png'', Open = Inr ''not an image''\<rparr>"
  have h1: "isl (Open ?item) \<or> (\<exists>r. Open ?item = Inr r \<and> isl (Decode sampleExternals r))"
    by simp
  have h1': "isl (Open ?item2) \<or> (\<exists>r. Open ?item2 = Inr r \<and> isl (Decode sampleExternals r))"
    by (simp add: sampleExternals_def)
  have h2: "Lookup (Key ?a) = atom_Src" by (simp add: Lookup_def)
  have h3: "find (\<lambda>item. HREF item = Val ?a) (items (newParser [?item])) = Some ?item"
    by (simp add: newParser_def)
  have h3': "find (\<lambda>item. HREF item = Val ?a) (items (newParser [?item2])) = Some ?item2"
    by (simp add: newParser_def)
  have h4: "Type ?token = StartTagToken \<or> Type ?token = SelfClosingTagToken" by simp
  have h5: "DataAtom ?token = atom_Img" by simp
  have h6: "Attr ?token = [?a]" by simp
  have "parseToken sampleExternals (newParser [?item]) ?token = Inr (newParser [?item])"
    by (simp add: parseToken_def handleStartTag_def imgAttr_def Lookup_def newParser_def getTableCell_def
          imageToText_def parser_appendText_def appendRaw_def runes_Nil snapToMargin_def newDoc_def)
  then have a: "parseText sampleExternals [?token] EOF [?item] = Inr (newDoc, None)"
    by (simp add: parseText_def) (simp add: newParser_def)
  from image_failure_renders_nothing [OF h1' h2 h3' h4 h5 h6]
  have b: "imageToText sampleExternals ?item2 = Inr []" by blast
  from a b show ?thesis by blast
qed

subsection \<open>Style and background\<close>

lemma setCell_defaultBackground:
  assumes "setCell c x y ch f (bg c) = Inr c'" and "defaultBackground c"
  shows "defaultBackground c'"
proof -
  let ?i = "wrap64 (y * width c + x)"
  let ?v = "\<lparr>Ch = ch, Fg = f, Bg = bg c\<rparr>"
  obtain k where k: "grow (cells c) ?i = cells c @ replicate (1024 * k) zeroCell"
    using grow_shape [of "cells c" ?i] by blast
  from assms(1) have c': "c' = c\<lparr>cells := (grow (cells c) ?i)[nat ?i := ?v]\<rparr>"
    by (auto simp: setCell_def store_def Let_def split: if_splits)
  have "set ((grow (cells c) ?i)[nat ?i := ?v]) \<subseteq> insert ?v (set (grow (cells c) ?i))"
    by (rule set_update_subset_insert)
  also have "\<dots> \<subseteq> insert ?v (insert zeroCell (set (cells c)))"
    unfolding k by auto
  finally have "\<forall>cell \<in> set (cells c'). Bg cell = ColorDefault"
    using assms(2) unfolding c' by (auto simp: defaultBackground_def zeroCell_def ColorDefault_def)
  moreover have "bg c' = ColorDefault"
    using assms(2) unfolding c' by (simp add: defaultBackground_def)
  ultimately show ?thesis by (simp add: defaultBackground_def)
qed

lemma putRunes_defaultBackground:
  "putRunes c w = Inr c' \<Longrightarrow> defaultBackground c \<Longrightarrow> defaultBackground c'"
proof (induction w arbitrary: c)
  case Nil
  then show ?case by simp
next
  case (Cons r rs)
  show ?case
  proof (cases "r = 10")
    case True
    have "defaultBackground (c\<lparr>row := row c + 1, col := lmargin c\<rparr>)"
      using Cons.prems(2) by (simp add: defaultBackground_def)
    with Cons.IH [of "c\<lparr>row := row c + 1, col := lmargin c\<rparr>"] Cons.prems(1) True
    show ?thesis by simp
  next
    case False
    with Cons.prems(1) obtain c1 where
      c1: "setCell c (col c) (row c) r (fg c) (bg c) = Inr c1"
        "putRunes (c1\<lparr>col := col c1 + 1\<rparr>) rs = Inr c'"
      by (auto split: sum.splits)
    from setCell_defaultBackground [OF c1(1) Cons.prems(2)]
    have "defaultBackground (c1\<lparr>col := col c1 + 1\<rparr>)"
      by (simp add: defaultBackground_def)
    from Cons.IH [OF c1(2) this] show ?thesis .
  qed
qed

lemma appendWord_defaultBackground:
  assumes "appendWord c t = Inr c'" and "defaultBackground c"
  shows "defaultBackground c'"
proof -
  let ?c1 = "if int (length (runes t)) > width c - col c
             then c\<lparr>row := row c + 1, col := lmargin c\<rparr> else c"
  have d1: "defaultBackground ?c1" using assms(2) by (simp add: defaultBackground_def)
  from assms(1) obtain c2 where c2: "putRunes ?c1 (runes t) = Inr c2"
    "c' = (if col c2 \<noteq> lmargin c2 then c2\<lparr>col := col c2 + 1\<rparr> else c2)"
    by (auto simp: appendWord_def Let_def split: sum.splits)
  from putRunes_defaultBackground [OF c2(1) d1] c2(2) show ?thesis
    by (simp add: defaultBackground_def)
qed

lemma appendWords_defaultBackground:
  "appendWords c ts = Inr c' \<Longrightarrow> defaultBackground c \<Longrightarrow> defaultBackground c'"
proof (induction ts arbitrary: c)
  case Nil
  then show ?case by simp
next
  case (Cons t ts)
  from Cons.prems(1) obtain c1 where c1: "appendWord c t = Inr c1" "appendWords c1 ts = Inr c'"
    by (auto split: sum.splits)
  from Cons.IH [OF c1(2) appendWord_defaultBackground [OF c1(1) Cons.prems(2)]]
  show ?case .
qed

lemma snapToMargin_defaultBackground:
  "defaultBackground c \<Longrightarrow> defaultBackground (snapToMargin c)"
  by (simp add: defaultBackground_def snapToMargin_def)

lemma appendText_defaultBackground:
  "appendText c str = Inr c' \<Longrightarrow> defaultBackground c \<Longrightarrow> defaultBackground c'"
  unfolding appendText_def
  by (erule appendWords_defaultBackground) (rule snapToMargin_defaultBackground)

lemma appendRaw_defaultBackground:
  "appendRaw c str = Inr c' \<Longrightarrow> defaultBackground c \<Longrightarrow> defaultBackground c'"
  unfolding appendRaw_def
  by (erule putRunes_defaultBackground) (rule snapToMargin_defaultBackground)

lemma parser_appendText_defaultBackground:
  "parser_appendText p str raw = Inr p' \<Longrightarrow> defaultBackground (doc p) \<Longrightarrow>
   defaultBackground (doc p')"
  by (auto simp: parser_appendText_def Let_def split: option.splits if_splits sum.splits
      dest: appendRaw_defaultBackground appendText_defaultBackground)

lemma handleText_defaultBackground:
  "handleText p token = Inr p' \<Longrightarrow> defaultBackground (doc p) \<Longrightarrow> defaultBackground (doc p')"
proof -
  have "defaultBackground (doc p) \<Longrightarrow> defaultBackground (style (doc p) (tagStack p))"
    by (simp add: defaultBackground_def style_def)
  then show "handleText p token = Inr p' \<Longrightarrow> defaultBackground (doc p) \<Longrightarrow>
      defaultBackground (doc p')"
    using parser_appendText_defaultBackground
      [of "p\<lparr>doc := style (doc p) (tagStack p)\<rparr>" "Data token" False p']
    by (auto simp: handleText_def split: if_splits)
qed

lemma imgAttr_defaultBackground:
  "imgAttr X p a = Inr p' \<Longrightarrow> defaultBackground (doc p) \<Longrightarrow> defaultBackground (doc p')"
  by (auto simp: imgAttr_def Let_def split: if_splits option.splits sum.splits
      dest: parser_appendText_defaultBackground)

lemma imgAttrs_defaultBackground:
  "imgAttrs X p as = Inr p' \<Longrightarrow> defaultBackground (doc p) \<Longrightarrow> defaultBackground (doc p')"
proof (induction as arbitrary: p)
  case Nil
  then show ?case by simp
next
  case (Cons a as)
  from Cons.prems(1) obtain p1 where p1: "imgAttr X p a = Inr p1" "imgAttrs X p1 as = Inr p'"
    by (auto split: sum.splits)
  from Cons.IH [OF p1(2) imgAttr_defaultBackground [OF p1(1) Cons.prems(2)]] show ?case .
qed

lemma handleStartTag_defaultBackground:
  assumes "handleStartTag X p token = Inr p'" and "defaultBackground (doc p)"
  shows "defaultBackground (doc p')"
proof (cases "DataAtom token")
  case atom_Img
  with assms show ?thesis by (auto simp: handleStartTag_def dest: imgAttrs_defaultBackground)
next
  case atom_Br
  with assms show ?thesis
    by (auto simp: handleStartTag_def dest: parser_appendText_defaultBackground)
next
  case atom_P
  with assms show ?thesis by (auto simp: handleStartTag_def defaultBackground_def)
next
  case atom_Hr
  have "defaultBackground (doc (p\<lparr>doc := (doc p)\<lparr>col := 0\<rparr>\<rparr>))"
    using assms(2) by (simp add: defaultBackground_def)
  with atom_Hr assms(1) show ?thesis
    by (auto simp: handleStartTag_def Let_def split: if_splits
        dest: parser_appendText_defaultBackground)
qed (use assms in \<open>auto simp: handleStartTag_def Let_def split: if_splits\<close>)

lemma handleEndTag_defaultBackground:
  assumes "handleEndTag X p token = Inr p'" and "defaultBackground (doc p)"
  shows "defaultBackground (doc p')"
proof (cases "DataAtom token = atom_Table")
  case True
  let ?p1 = "p\<lparr>tableStack := take (nat (int (length (tableStack p)) - 1)) (tableStack p)\<rparr>"
  from True assms(1) obtain p2 where
    p2: "parser_appendText ?p1 [CHR 0x0A] True = Inr p2"
      "parser_appendText p2
         (TableRender X (tableStack p ! nat (int (length (tableStack p)) - 1)) True True) True = Inr p'"
    by (auto simp: handleEndTag_def Let_def split: if_splits sum.splits)
  have "defaultBackground (doc ?p1)" using assms(2) by simp
  from parser_appendText_defaultBackground [OF p2(2)
      parser_appendText_defaultBackground [OF p2(1) this]]
  show ?thesis .
next
  case False
  with assms show ?thesis by (cases "DataAtom token") (auto simp: handleEndTag_def)
qed

lemma parseToken_defaultBackground:
  assumes "parseToken X p token = Inr p'" and "defaultBackground (doc p)"
  shows "defaultBackground (doc p')"
proof (cases "Type token")
  case TextToken
  with assms show ?thesis by (auto simp: parseToken_def dest: handleText_defaultBackground)
next
  case StartTagToken
  with assms handleStartTag_defaultBackground
    [of X "p\<lparr>tagStack := tagStack p @ [DataAtom token]\<rparr>" token p']
  show ?thesis by (auto simp: parseToken_def)
next
  case EndTagToken
  with assms show ?thesis
    by (auto simp: parseToken_def split: sum.splits if_splits dest: handleEndTag_defaultBackground)
next
  case SelfClosingTagToken
  with assms show ?thesis by (auto simp: parseToken_def dest: handleStartTag_defaultBackground)
qed (use assms in \<open>auto simp: parseToken_def\<close>)

lemma parse_defaultBackground:
  "parse X p tokens e = Inr (p', r) \<Longrightarrow> defaultBackground (doc p) \<Longrightarrow>
   defaultBackground (doc p')"
proof (induction tokens arbitrary: p)
  case Nil
  then show ?case by (auto split: if_splits)
next
  case (Cons token tokens)
  from Cons.prems(1) obtain p1 where
    p1: "parseToken X p token = Inr p1" "parse X p1 tokens e = Inr (p', r)"
    by (auto split: sum.splits)
  from Cons.IH [OF p1(2) parseToken_defaultBackground [OF p1(1) Cons.prems(2)]] show ?case .
qed

lemma parseText_defaultBackground:
  assumes "parseText X tokens e its = Inr (d, r)"
  shows "defaultBackground d"
proof -
  from assms obtain p' r' where p': "parse X (newParser its) tokens e = Inr (p', r')" "d = doc p'"
    by (auto simp: parseText_def split: sum.splits option.splits)
  have "defaultBackground (doc (newParser its))"
    by (simp add: newParser_def newDoc_def defaultBackground_def ColorDefault_def)
  from parse_defaultBackground [OF p'(1) this] p'(2) show ?thesis by simp
qed

text \<open>
  Claim C5. The foreground that \<^verbatim>\<open>style\<close> sets is the default colour ORed with the
  attribute of every tag of the stack; two stacks that are permutations of each other
  give the same style; and bold and italic nested in either order give the bold bit
  (bit 9) and the bit of yellow (bit 2) together. \<^verbatim>\<open>style\<close> leaves the background as it
  is, and in every document that \<^verbatim>\<open>parseText\<close> returns the background is the default,
  for the buffer and for each of its cells.
\<close>

theorem style_is_or_of_open_tags:
  "fg (style c tags) = fold (\<lambda>tag f. f OR tagAttribute tag) tags ColorDefault \<and>
   bg (style c tags) = bg c \<and>
   (mset tags' = mset tags \<longrightarrow> style c tags' = style c tags) \<and>
   fg (style c [atom_B, atom_I]) = AttrBold OR ColorYellow \<and>
   fg (style c [atom_I, atom_B]) = AttrBold OR ColorYellow \<and>
   bit (fg (style c [atom_B, atom_I])) 9 \<and> bit (fg (style c [atom_B, atom_I])) 2 \<and>
   (parseText X tokens e its = Inr (d, r) \<longrightarrow> defaultBackground d)"
proof -
  have "mset tags' = mset tags \<longrightarrow> style c tags' = style c tags"
    using fold_or_permute [of tags' tags] by (simp add: style_def styleLoop_fold)
  moreover have "fg (style c [atom_B, atom_I]) = AttrBold OR ColorYellow"
    by (simp add: style_def ColorDefault_def)
  moreover have "fg (style c [atom_I, atom_B]) = AttrBold OR ColorYellow"
    by (simp add: style_def ColorDefault_def or.commute)
  moreover have "bit (fg (style c [atom_B, atom_I])) 9 \<and> bit (fg (style c [atom_B, atom_I])) 2"
    by (simp add: style_def ColorDefault_def AttrBold_def ColorYellow_def bit_or_iff)
  moreover have "parseText X tokens e its = Inr (d, r) \<longrightarrow> defaultBackground d"
    by (auto dest: parseText_defaultBackground)
  ultimately show ?thesis
    by (simp add: style_def styleLoop_fold)
qed

theorem style_is_or_of_open_tags_witness:
  "mset [atom_I, atom_P, atom_B] = mset [atom_B, atom_I, atom_P] \<and>
   style \<lparr>cells = [], width = 80, lmargin = 0, col = 0, row = 0, fg = 0, bg = 0\<rparr>
     [atom_I, atom_P, atom_B] =
   style \<lparr>cells = [], width = 80, lmargin = 0, col = 0, row = 0, fg = 0, bg = 0\<rparr>
     [atom_B, atom_I, atom_P]"
proof -
  have h: "mset [atom_I, atom_P, atom_B] = mset [atom_B, atom_I, atom_P]" by simp
  with style_is_or_of_open_tags
    [of "\<lparr>cells = [], width = 80, lmargin = 0, col = 0, row = 0, fg = 0, bg = 0\<rparr>"
        "[atom_B, atom_I, atom_P]" "[atom_I, atom_P, atom_B]"]
  show ?thesis by blast
qed


subsection \<open>A scenario\<close>

lemma replicate_13: "replicate 1024 x = [x, x, x, x, x, x, x, x, x, x, x, x, x] @ replicate 1011 x"
proof -
  have "replicate 1024 x = replicate 13 x @ replicate 1011 x"
    by (simp add: replicate_add [symmetric])
  moreover have "replicate 13 x = [x, x, x, x, x, x, x, x, x, x, x, x, x]"
    by (simp add: numeral_eq_Suc)
  ultimately show ?thesis by simp
qed

text \<open>
  Claim C8. The tokens of \<^verbatim>\<open><p>Hello <b>world</b></p>\<close>, then the end of the stream:
  \<^verbatim>\<open>parseText\<close> returns no error and a document of width 80 whose row 0 has two
  empty cells, the five cells of \<open>Hello\<close> without the bold bit, one empty cell, and the
  five cells of \<open>world\<close> with the foreground \<^verbatim>\<open>AttrBold\<close>, which is bit 9. All other cells
  are empty.
\<close>

theorem hello_world_scenario:
  "parseText X helloTokens EOF its =
     Inr (newDoc\<lparr>cells :=
            [zeroCell, zeroCell,
             \<lparr>Ch = 72, Fg = 0, Bg = 0\<rparr>, \<lparr>Ch = 101, Fg = 0, Bg = 0\<rparr>,
             \<lparr>Ch = 108, Fg = 0, Bg = 0\<rparr>, \<lparr>Ch = 108, Fg = 0, Bg = 0\<rparr>,
             \<lparr>Ch = 111, Fg = 0, Bg = 0\<rparr>,
             zeroCell,
             \<lparr>Ch = 119, Fg = AttrBold, Bg = 0\<rparr>, \<lparr>Ch = 111, Fg = AttrBold, Bg = 0\<rparr>,
             \<lparr>Ch = 114, Fg = AttrBold, Bg = 0\<rparr>, \<lparr>Ch = 108, Fg = AttrBold, Bg = 0\<rparr>,
             \<lparr>Ch = 100, Fg = AttrBold, Bg = 0\<rparr>]
            @ replicate 1011 zeroCell,
          col := 14, fg := AttrBold\<rparr>, None) \<and>
   runes ''Hello'' = [72, 101, 108, 108, 111] \<and> runes ''world'' = [119, 111, 114, 108, 100] \<and>
   bit AttrBold 9 \<and> \<not> bit (0 :: Attribute) 9"
proof -
  have s: "Scan ''Hello '' = [''Hello'']" "Scan ''world'' = [''world'']"
    by (simp_all add: Scan.simps scanWords_def skipSpaces.simps findSpace.simps
        MaxScanTokenSize_def)
  have r: "runes ''Hello'' = [72, 101, 108, 108, 111]" "runes ''world'' = [119, 111, 114, 108, 100]"
    by (simp_all add: runes.simps)
  have "parseText X helloTokens EOF its =
     Inr (newDoc\<lparr>cells := (replicate 1024 zeroCell)
            [2 := \<lparr>Ch = 72, Fg = 0, Bg = 0\<rparr>, 3 := \<lparr>Ch = 101, Fg = 0, Bg = 0\<rparr>,
             4 := \<lparr>Ch = 108, Fg = 0, Bg = 0\<rparr>, 5 := \<lparr>Ch = 108, Fg = 0, Bg = 0\<rparr>,
             6 := \<lparr>Ch = 111, Fg = 0, Bg = 0\<rparr>,
             8 := \<lparr>Ch = 119, Fg = AttrBold, Bg = 0\<rparr>, 9 := \<lparr>Ch = 111, Fg = AttrBold, Bg = 0\<rparr>,
             10 := \<lparr>Ch = 114, Fg = AttrBold, Bg = 0\<rparr>, 11 := \<lparr>Ch = 108, Fg = AttrBold, Bg = 0\<rparr>,
             12 := \<lparr>Ch = 100, Fg = AttrBold, Bg = 0\<rparr>],
          col := 14, fg := AttrBold\<rparr>, None)"
    by (simp add: parseText_def newParser_def newDoc_def helloTokens_def parseToken_def
        handleStartTag_def handleText_def handleEndTag_def parser_appendText_def
        getTableCell_def appendText_def appendWord_def snapToMargin_def style_def
        s r setCell_def wrap64_def store_def grow.simps ColorDefault_def)
  moreover have "bit AttrBold 9 \<and> \<not> bit (0 :: Attribute) 9"
    by (simp add: AttrBold_def)
  ultimately show ?thesis
    by (simp add: r replicate_13 [of zeroCell])
qed

end
